theory Spec2Isabelle
  imports Complex_Main "HOL-Library.Product_Lexorder" "HOL-Library.Monad_Syntax"
begin

section \<open>Energy Sankey: data store, totals, flow geometry and playback\<close>

text \<open>
  A shallow embedding of the TypeScript sources. JavaScript numbers are modelled as
  exact reals (years and array indices as integers), objects with dynamic string keys as
  maps from \<open>string\<close>, and every \<open>throw\<close> as a value of type \<open>error\<close>.
  Where the code would read a property that is absent (JavaScript then throws a
  TypeError or continues with \<open>undefined\<close>, i.e. NaN), the model has no real number
  to continue with and returns \<open>None\<close>.
\<close>

subsection \<open>ConfigurationService\<close>

text \<open>
  The fixed constants of \<open>ConfigurationService\<close>. \<open>WIDTH\<close> depends on the container
  and the options; \<open>ELECTRICITY_BOX_X\<close>, \<open>ELECTRICITY_BOX_Y\<close>, \<open>LEFT_Y\<close> and
  \<open>ELECTRICITY_GAP\<close> are read by \<open>GraphService\<close> but declared nowhere in the sources
  at hand, so they are fields of the configuration record, as is \<open>hasHeatData\<close>, the
  one mutable flag.
\<close>

record ConfigurationService =
  hasHeatData :: bool
  WIDTH :: real
  ELECTRICITY_BOX_X :: real
  ELECTRICITY_BOX_Y :: real
  LEFT_Y :: real
  ELECTRICITY_GAP :: real

definition BOX_WIDTH :: real where "BOX_WIDTH = 120"
definition LEFT_X :: real where "LEFT_X = 10"
definition TOP_Y :: real where "TOP_Y = 100"
definition SCALE :: real where "SCALE = 0.02"
definition ELEC_BOX_X :: real where "ELEC_BOX_X = 300"
definition ELEC_BOX_Y :: real where "ELEC_BOX_Y = 120"
definition HEAT_BOX_X :: real where "HEAT_BOX_X = 750"
definition HEAT_BOX_Y :: real where "HEAT_BOX_Y = 200"
definition LEFT_GAP :: real where "LEFT_GAP = 30"
definition RIGHT_GAP :: real where "RIGHT_GAP = LEFT_GAP * 2.1"
definition SR3 :: real where "SR3 = sqrt 3"
definition HSR3 :: real where "HSR3 = sqrt 3 / 2"
definition PATH_GAP :: real where "PATH_GAP = 20"

definition FUEL_NAMES :: "string list" where
  "FUEL_NAMES = [''elec'', ''heat'', ''solar'', ''nuclear'', ''hydro'', ''wind'', ''geo'',
                 ''gas'', ''coal'', ''bio'', ''petro'']"

definition BOX_NAMES :: "string list" where
  "BOX_NAMES = [''elec'', ''res'', ''ag'', ''indus'', ''trans'', ''heat'']"

definition BOXES_DEFAULT_FLOW_PATHS_ORDER :: "(string \<times> int) list" where
  "BOXES_DEFAULT_FLOW_PATHS_ORDER =
     [(''elec'', 1), (''res'', 2), (''ag'', 3), (''indus'', 4), (''trans'', 5), (''heat'', 6)]"

definition HEAT_BOX_FIRST_FLOW_PATHS_ORDER :: "(string \<times> int) list" where
  "HEAT_BOX_FIRST_FLOW_PATHS_ORDER =
     [(''elec'', 1), (''heat'', 2), (''res'', 3), (''ag'', 4), (''indus'', 5), (''trans'', 6)]"

definition FLOW_PATHS_ORDER :: "string \<Rightarrow> (string \<times> int) list" where
  "FLOW_PATHS_ORDER fuelName =
     (if fuelName \<in> set [''gas'', ''coal'', ''petro''] then HEAT_BOX_FIRST_FLOW_PATHS_ORDER
      else BOXES_DEFAULT_FLOW_PATHS_ORDER)"

text \<open>\<open>Array.prototype.indexOf\<close>: the first position of the element, or \<open>-1\<close>.\<close>

fun indexOf :: "'a list \<Rightarrow> 'a \<Rightarrow> int" where
  "indexOf [] y = -1"
| "indexOf (x # xs) y =
     (if x = y then 0 else (let r = indexOf xs y in if r = -1 then -1 else r + 1))"

text \<open>An array read \<open>xs[i]\<close>: \<open>undefined\<close> out of range.\<close>

definition nth_opt :: "'a list \<Rightarrow> int \<Rightarrow> 'a option" where
  "nth_opt xs i = (if 0 \<le> i \<and> i < int (length xs) then Some (xs ! nat i) else None)"

subsection \<open>EnergyDataPoint and DataValidationService\<close>

datatype error =
    DataValidationError string
  | Error string

type_synonym EnergySectorBreakdown = "string \<rightharpoonup> real"

text \<open>
  One record per year. \<open>sectors\<close> holds the fuel objects of the data point
  (\<open>point.elec\<close>, \<open>point.waste\<close>, \<open>point.solar\<close>, \<dots>, and \<open>point.heat\<close> when present),
  each a breakdown from sector keys to numbers.
\<close>

record EnergyDataPoint =
  year :: int
  milestone :: "string option"
  sectors :: "string \<rightharpoonup> EnergySectorBreakdown"

definition requiredSectors :: "string list" where
  "requiredSectors = [''elec'', ''waste'', ''solar'', ''nuclear'', ''hydro'', ''wind'', ''geo'',
                      ''gas'', ''coal'', ''bio'', ''petro'']"

definition requiredBreakdown :: "string list" where
  "requiredBreakdown = [''elec'', ''res'', ''ag'', ''indus'', ''trans'']"

fun check_breakdown :: "string \<Rightarrow> EnergySectorBreakdown \<Rightarrow> string list \<Rightarrow> error + unit" where
  "check_breakdown sector sectorData [] = Inr ()"
| "check_breakdown sector sectorData (breakdown # rest) =
     (if sectorData breakdown = None
      then Inl (DataValidationError (sector @ ''.'' @ breakdown))
      else check_breakdown sector sectorData rest)"

fun check_sectors :: "EnergyDataPoint \<Rightarrow> string list \<Rightarrow> error + unit" where
  "check_sectors point [] = Inr ()"
| "check_sectors point (sector # rest) =
     (case sectors point sector of
        None \<Rightarrow> Inl (DataValidationError sector)
      | Some sectorData \<Rightarrow>
          (case check_breakdown sector sectorData
                  (requiredBreakdown @ (if sectors point ''heat'' \<noteq> None then [''heat''] else []))
           of Inl e \<Rightarrow> Inl e
            | Inr _ \<Rightarrow> check_sectors point rest))"

text \<open>The loop over the data points; the accumulator is the local \<open>hasHeatData\<close>.\<close>

fun check_points :: "EnergyDataPoint list \<Rightarrow> bool \<Rightarrow> error + bool" where
  "check_points [] h = Inr h"
| "check_points (point # rest) h =
     (if year point = 0 then Inl (DataValidationError ''year'')
      else (case check_sectors point requiredSectors of
              Inl e \<Rightarrow> Inl e
            | Inr _ \<Rightarrow> check_points rest (h \<or> sectors point ''heat'' \<noteq> None)))"

text \<open>
  \<open>validateData\<close> throws or returns; on success it has switched the configuration's
  \<open>hasHeatData\<close> on when some data point has a \<open>heat\<close> key. No check compares the years
  of two data points, and no check looks at the sign of a quantity.
\<close>

definition validateData :: "ConfigurationService \<Rightarrow> EnergyDataPoint list \<Rightarrow> error + ConfigurationService" where
  "validateData cfg dat =
     (if dat = [] then Inl (DataValidationError ''data'')
      else (case check_points dat False of
              Inl e \<Rightarrow> Inl e
            | Inr h \<Rightarrow> Inr (if h then cfg\<lparr>hasHeatData := True\<rparr> else cfg)))"

subsection \<open>DataService\<close>

record DataService =
  data :: "EnergyDataPoint list"
  years :: "int list"
  yearsLength :: nat
  firstYear :: int
  lastYear :: int

text \<open>
  The constructor: validate, sort a copy by year (the sort of the language is stable),
  freeze the array (a shallow freeze: the data points themselves stay writable) and
  derive the year list. The data is not empty once validation has passed, so \<open>hd\<close>
  and \<open>last\<close> are the first and the last year.
\<close>

definition new_DataService ::
  "ConfigurationService \<Rightarrow> EnergyDataPoint list \<Rightarrow> error + (ConfigurationService \<times> DataService)" where
  "new_DataService cfg energyData =
     (case validateData cfg energyData of
        Inl e \<Rightarrow> Inl e
      | Inr cfg' \<Rightarrow>
          (let sortedData = sort_key year energyData;
               ys = map year sortedData
           in Inr (cfg', \<lparr>data = sortedData, years = ys, yearsLength = length ys,
                          firstYear = hd ys, lastYear = last ys\<rparr>)))"

definition getYearIndex :: "DataService \<Rightarrow> int \<Rightarrow> int" where
  "getYearIndex ds y = indexOf (years ds) y"

definition hasYear :: "DataService \<Rightarrow> int \<Rightarrow> bool" where
  "hasYear ds y = (y \<in> set (years ds))"

definition getYearDataByIndex :: "DataService \<Rightarrow> int \<Rightarrow> EnergyDataPoint option" where
  "getYearDataByIndex ds i =
     (if i < 0 \<or> i \<ge> int (length (data ds)) then None else Some (data ds ! nat i))"

definition isValidYear :: "DataService \<Rightarrow> int \<Rightarrow> bool" where
  "isValidYear ds y = (y \<ge> firstYear ds \<and> y \<le> lastYear ds \<and> hasYear ds y)"

text \<open>Example data: a data point whose every quantity is \<open>v\<close>, without a heat category.\<close>

definition flat_breakdown :: "real \<Rightarrow> EnergySectorBreakdown" where
  "flat_breakdown v = map_of (map (\<lambda>b. (b, v)) requiredBreakdown)"

definition flat_point :: "int \<Rightarrow> real \<Rightarrow> EnergyDataPoint" where
  "flat_point y v =
     \<lparr>year = y, milestone = None,
      sectors = map_of (map (\<lambda>s. (s, flat_breakdown v)) requiredSectors)\<rparr>"

definition cfg0 :: ConfigurationService where
  "cfg0 = \<lparr>hasHeatData = False, WIDTH = 1200, ELECTRICITY_BOX_X = 300,
           ELECTRICITY_BOX_Y = 120, LEFT_Y = 100, ELECTRICITY_GAP = 19\<rparr>"

subsection \<open>SummaryService\<close>

text \<open>
  \<open>YearTotals\<close>, \<open>YearLabels\<close> and \<open>YearFlows\<close> are objects indexed by fuel and box
  names; the year is one more numeric entry. The key \<open>heat\<close> exists only with heat data.
\<close>

type_synonym NumberObject = "string \<rightharpoonup> real"

record YearTotals =
  nums :: NumberObject
  total_milestone :: "string option"

record SummaryData =
  totals :: "YearTotals list"
  flows :: "NumberObject list"
  labels :: "NumberObject list"
  maxes :: NumberObject
  boxTops :: NumberObject
  yearSums :: "int \<rightharpoonup> real"

text \<open>A loop whose body may fail: the first failure ends it.\<close>

fun ofold :: "('s \<Rightarrow> 'a \<Rightarrow> 's option) \<Rightarrow> 'a list \<Rightarrow> 's \<Rightarrow> 's option" where
  "ofold f [] s = Some s"
| "ofold f (x # xs) s = (case f s x of None \<Rightarrow> None | Some s' \<Rightarrow> ofold f xs s')"

text \<open>\<open>yearData[fuel][box]\<close>, and \<open>obj[key] += x\<close> on an object that has the key.\<close>

definition rd :: "EnergyDataPoint \<Rightarrow> string \<Rightarrow> string \<Rightarrow> real option" where
  "rd yearData fuelName boxName =
     (case sectors yearData fuelName of None \<Rightarrow> None | Some fuelObj \<Rightarrow> fuelObj boxName)"

definition add_to :: "NumberObject \<Rightarrow> string \<Rightarrow> real \<Rightarrow> NumberObject option" where
  "add_to obj k x = (case obj k of None \<Rightarrow> None | Some v \<Rightarrow> Some (obj(k \<mapsto> v + x)))"

record TotalsLoop =
  total :: NumberObject
  label :: NumberObject
  flow :: NumberObject

text \<open>Level 3 of \<open>buildTotals\<close>: one fuel, one box.\<close>

definition sector_step ::
  "ConfigurationService \<Rightarrow> EnergyDataPoint \<Rightarrow> nat \<Rightarrow> string \<Rightarrow> EnergySectorBreakdown
    \<Rightarrow> TotalsLoop \<Rightarrow> string \<Rightarrow> TotalsLoop option" where
  "sector_step cfg yearData j fuelName fuelObj st boxName =
     (if \<not> hasHeatData cfg \<and> boxName = ''heat'' then Some st
      else do {
        v \<leftarrow> fuelObj boxName;
        flow1 \<leftarrow> (if v > 0 then add_to (flow st) boxName 1 else Some (flow st));
        total1 \<leftarrow> add_to (total st) boxName v;
        total2 \<leftarrow> add_to total1 fuelName v;
        total3 \<leftarrow> (if j = 2 \<and> boxName \<noteq> ''elec''
                    then do {
                      e \<leftarrow> rd yearData ''elec'' boxName;
                      t \<leftarrow> add_to total2 boxName e;
                      w \<leftarrow> rd yearData ''waste'' boxName;
                      add_to t boxName w }
                    else Some total2);
        total4 \<leftarrow> (if j = 2 \<and> boxName \<noteq> ''heat'' \<and> hasHeatData cfg
                    then do {
                      h \<leftarrow> rd yearData ''heat'' boxName;
                      add_to total3 boxName h }
                    else Some total3);
        Some (st\<lparr>total := total4, flow := flow1\<rparr>)
      })"

text \<open>Level 2: one fuel, all boxes, then the label and the running fuel height.\<close>

definition fuel_step ::
  "ConfigurationService \<Rightarrow> EnergyDataPoint \<Rightarrow> TotalsLoop \<Rightarrow> nat \<times> string \<Rightarrow> TotalsLoop option" where
  "fuel_step cfg yearData st jf =
     (let j = fst jf; fuelName = snd jf in
      if \<not> hasHeatData cfg \<and> fuelName = ''heat'' then Some st
      else do {
        fuelObj \<leftarrow> sectors yearData fuelName;
        st1 \<leftarrow> ofold (sector_step cfg yearData j fuelName fuelObj) BOX_NAMES st;
        fh \<leftarrow> total st1 ''fuel_height'';
        te \<leftarrow> total st1 ''elec'';
        label1 \<leftarrow> Some ((label st1)(fuelName \<mapsto> TOP_Y + fh - 5, ''elec'' \<mapsto> ELEC_BOX_Y - te * SCALE));
        label2 \<leftarrow> (if hasHeatData cfg
                    then do { th \<leftarrow> total st1 ''heat''; Some (label1(''heat'' \<mapsto> HEAT_BOX_Y - th * SCALE)) }
                    else Some label1);
        tf \<leftarrow> total st1 fuelName;
        Some (st1\<lparr>total := (total st1)(''fuel_height'' \<mapsto> fh + (tf * SCALE + LEFT_GAP)),
                  label := label2\<rparr>)
      })"

definition zero_keys :: "string list \<Rightarrow> (string \<times> real) list" where
  "zero_keys ks = map (\<lambda>k. (k, 0)) ks"

definition initial_loop :: "ConfigurationService \<Rightarrow> EnergyDataPoint \<Rightarrow> TotalsLoop" where
  "initial_loop cfg yearData =
     \<lparr>total = map_of ((''year'', real_of_int (year yearData))
                # zero_keys [''elec'', ''res'', ''ag'', ''indus'', ''trans'', ''solar'', ''nuclear'',
                             ''hydro'', ''wind'', ''geo'', ''gas'', ''coal'', ''bio'', ''petro'',
                             ''fuel_height'', ''waste'']
                @ (if hasHeatData cfg then [(''heat'', 0)] else [])),
      label = map_of ((''year'', real_of_int (year yearData)) # (''elec'', ELEC_BOX_Y)
                # zero_keys [''res'', ''ag'', ''indus'', ''trans'', ''solar'', ''nuclear'',
                             ''hydro'', ''wind'', ''geo'', ''gas'', ''coal'', ''bio'', ''petro'']
                @ (if hasHeatData cfg then [(''heat'', HEAT_BOX_Y)] else [])),
      flow = map_of ((''year'', real_of_int (year yearData))
                # zero_keys [''elec'', ''res'', ''ag'', ''indus'', ''trans'']
                @ (if hasHeatData cfg then [(''heat'', 0)] else []))\<rparr>"

text \<open>The fuels of the middle loop: \<open>j\<close> runs from 2, so electricity and heat are left out.\<close>

definition fuel_indices :: "(nat \<times> string) list" where
  "fuel_indices = drop 2 (zip [0..<length FUEL_NAMES] FUEL_NAMES)"

text \<open>The waste total of the year and the year's primary-energy sum.\<close>

definition year_waste :: "ConfigurationService \<Rightarrow> EnergyDataPoint \<Rightarrow> real option" where
  "year_waste cfg yearData =
     do {
       wr \<leftarrow> rd yearData ''waste'' ''res'';
       wa \<leftarrow> rd yearData ''waste'' ''ag'';
       wi \<leftarrow> rd yearData ''waste'' ''indus'';
       wt \<leftarrow> rd yearData ''waste'' ''trans'';
       if hasHeatData cfg
       then do { wh \<leftarrow> rd yearData ''waste'' ''heat''; Some (wr + wa + wi + wt + wh) }
       else Some (wr + wa + wi + wt)
     }"

definition primary_sum :: "NumberObject \<Rightarrow> real option" where
  "primary_sum tot =
     do {
       bio \<leftarrow> tot ''bio''; coal \<leftarrow> tot ''coal''; gas \<leftarrow> tot ''gas''; geo \<leftarrow> tot ''geo'';
       hydro \<leftarrow> tot ''hydro''; nuclear \<leftarrow> tot ''nuclear''; petro \<leftarrow> tot ''petro'';
       solar \<leftarrow> tot ''solar''; wind \<leftarrow> tot ''wind'';
       Some (bio + coal + gas + geo + hydro + nuclear + petro + solar + wind)
     }"

text \<open>
  Level 1: one year. The result is the year's total, flow and label objects and the
  year's primary-energy sum.
\<close>

definition year_step ::
  "ConfigurationService \<Rightarrow> EnergyDataPoint \<Rightarrow> (YearTotals \<times> NumberObject \<times> NumberObject \<times> real) option" where
  "year_step cfg yearData =
     do {
       st \<leftarrow> ofold (fuel_step cfg yearData) fuel_indices (initial_loop cfg yearData);
       waste \<leftarrow> year_waste cfg yearData;
       ysum \<leftarrow> primary_sum ((total st)(''waste'' \<mapsto> waste));
       Some (\<lparr>nums = (total st)(''waste'' \<mapsto> waste), total_milestone = milestone yearData\<rparr>,
             flow st, label st, ysum)
     }"

definition push_year :: "ConfigurationService \<Rightarrow> SummaryData \<Rightarrow> EnergyDataPoint \<Rightarrow> SummaryData option" where
  "push_year cfg sm yearData =
     (case year_step cfg yearData of
        None \<Rightarrow> None
      | Some (t, f, l, ysum) \<Rightarrow>
          Some (sm\<lparr>totals := totals sm @ [t], flows := flows sm @ [f], labels := labels sm @ [l],
                   yearSums := (yearSums sm)(year yearData \<mapsto> ysum)\<rparr>))"

definition buildTotals :: "ConfigurationService \<Rightarrow> DataService \<Rightarrow> SummaryData \<Rightarrow> SummaryData option" where
  "buildTotals cfg ds sm = ofold (push_year cfg) (data ds) sm"

text \<open>
  \<open>Math.max\<close> over the spread of an array: no real number for the empty array
  (\<open>-Infinity\<close>) or when an entry is \<open>undefined\<close> (NaN).
\<close>

definition Math_max :: "real option list \<Rightarrow> real option" where
  "Math_max vs =
     (case those vs of
        None \<Rightarrow> None
      | Some [] \<Rightarrow> None
      | Some (w # ws) \<Rightarrow> Some (fold max ws w))"

definition buildMaxes :: "SummaryData \<Rightarrow> SummaryData" where
  "buildMaxes sm =
     sm\<lparr>maxes := (\<lambda>boxName. if boxName \<in> set BOX_NAMES
                              then Math_max (map (\<lambda>yearTotal. nums yearTotal boxName) (totals sm))
                              else None)\<rparr>"

definition buildBoxTops :: "SummaryData \<Rightarrow> SummaryData option" where
  "buildBoxTops sm =
     do {
       res \<leftarrow> Some (ELEC_BOX_Y + 50);
       mres \<leftarrow> maxes sm ''res'';
       ag \<leftarrow> Some (res + mres * SCALE + RIGHT_GAP);
       mag \<leftarrow> maxes sm ''ag'';
       indus \<leftarrow> Some (ag + mag * SCALE + RIGHT_GAP);
       mindus \<leftarrow> maxes sm ''indus'';
       trans \<leftarrow> Some (indus + mindus * SCALE + RIGHT_GAP);
       Some (sm\<lparr>boxTops := map_of [(''res'', res), (''heat'', HEAT_BOX_Y + 50), (''ag'', ag),
                                     (''indus'', indus), (''trans'', trans)]\<rparr>)
     }"

definition empty_summary :: SummaryData where
  "empty_summary = \<lparr>totals = [], flows = [], labels = [], maxes = Map.empty,
                    boxTops = Map.empty, yearSums = Map.empty\<rparr>"

definition buildSummary :: "ConfigurationService \<Rightarrow> DataService \<Rightarrow> SummaryData option" where
  "buildSummary cfg ds =
     do {
       sm \<leftarrow> buildTotals cfg ds empty_summary;
       buildBoxTops (buildMaxes sm)
     }"

subsection \<open>GraphService\<close>

record GraphPoint =
  px :: real
  py :: real

text \<open>
  A flow. The fields \<open>value\<close>, \<open>a\<close>, \<open>b\<close>, \<open>c\<close>, \<open>d\<close> and \<open>cc\<close> of the source are
  \<open>gvalue\<close>, \<open>pa\<close>, \<open>pb\<close>, \<open>pc\<close>, \<open>pd\<close> and \<open>pcc\<close> here, the coordinates \<open>x\<close> and
  \<open>y\<close> of a point \<open>px\<close> and \<open>py\<close>.
\<close>

record GraphStroke =
  fuel :: string
  box :: string
  gvalue :: real
  stroke :: real
  pa :: GraphPoint
  pb :: GraphPoint
  pc :: GraphPoint
  pd :: GraphPoint
  pcc :: GraphPoint

text \<open>
  One year's graph. \<open>totals\<close> and \<open>flows\<close> are the first summary entries of the year,
  \<open>undefined\<close> when the filter finds none.
\<close>

record GraphData =
  graph :: "GraphStroke list"
  offsets_x :: NumberObject
  offsets_y :: NumberObject
  graph_year :: int
  graph_totals :: "YearTotals option"
  graph_flows :: "NumberObject option"

text \<open>The variables of one year of \<open>calculateGraphY\<close>.\<close>

record GraphLoop =
  strokes :: "GraphStroke list"
  leftY :: real
  elecY :: real
  heatY :: "real option"
  offs :: NumberObject

definition totals_get :: "YearTotals option \<Rightarrow> string \<Rightarrow> real option" where
  "totals_get tots k = (case tots of None \<Rightarrow> None | Some t \<Rightarrow> nums t k)"

definition order_of :: "(string \<times> int) list \<Rightarrow> string \<Rightarrow> int" where
  "order_of tbl boxName = (case map_of tbl boxName of Some n \<Rightarrow> n | None \<Rightarrow> 0)"

text \<open>
  The waste-heat clone of an electricity flow: a deep copy whose stroke and value are
  recomputed from the year's waste quantity of the box. The source tests the box
  against res, ag, indus, trans and (with heat data) heat in five branches with the
  same body; a copy for any other box would be appended unchanged.
\<close>

definition clone_step ::
  "ConfigurationService \<Rightarrow> EnergySectorBreakdown option \<Rightarrow> string \<Rightarrow> string \<Rightarrow> GraphStroke
    \<Rightarrow> GraphLoop \<Rightarrow> GraphLoop option" where
  "clone_step cfg wasteObj fuelName lastBox g st =
     (if fuelName = ''elec''
         \<and> (lastBox = ''res'' \<or> lastBox = ''ag'' \<or> lastBox = ''indus'' \<or> lastBox = ''trans''
            \<or> (lastBox = ''heat'' \<and> hasHeatData cfg))
      then do {
        wo \<leftarrow> wasteObj;
        w \<leftarrow> wo lastBox;
        off \<leftarrow> add_to (offs st) lastBox (w * SCALE / 2 * 2);
        Some (st\<lparr>elecY := elecY st + w * SCALE / 2 * 2,
                 offs := off,
                 strokes := strokes st @ [g\<lparr>stroke := w * SCALE / 2 * 2, gvalue := w\<rparr>]\<rparr>)
      }
      else Some (st\<lparr>strokes := strokes st @ [g]\<rparr>))"

text \<open>
  Level 3 of \<open>calculateGraphY\<close>, in its parts. The start of a flow: electricity flows
  (\<open>j = 0\<close>) leave the electricity box, heat flows (\<open>j = 1\<close>) the heat box, all others
  the left column; the cursor moves down by half the stroke before the point is taken.
\<close>

definition source_point ::
  "ConfigurationService \<Rightarrow> nat \<Rightarrow> GraphLoop \<Rightarrow> real \<Rightarrow> (GraphLoop \<times> GraphPoint) option" where
  "source_point cfg j st halfStroke =
     (if j = 0
      then Some (st\<lparr>elecY := elecY st + halfStroke + halfStroke\<rparr>,
                 \<lparr>px = ELECTRICITY_BOX_X cfg + BOX_WIDTH, py = elecY st + halfStroke\<rparr>)
      else if j = 1
      then do {
        hy \<leftarrow> heatY st;
        Some (st\<lparr>heatY := Some (hy + halfStroke + halfStroke)\<rparr>,
              \<lparr>px = HEAT_BOX_X + BOX_WIDTH, py = hy + halfStroke\<rparr>) }
      else Some (st\<lparr>leftY := leftY st + halfStroke\<rparr>,
                 \<lparr>px = LEFT_X, py = leftY st + halfStroke\<rparr>))"

text \<open>The end of a flow: \<open>c.x\<close>, \<open>b.x\<close> and the point \<open>d\<close>.\<close>

definition target_point ::
  "ConfigurationService \<Rightarrow> SummaryData \<Rightarrow> YearTotals option \<Rightarrow> nat \<Rightarrow> string \<Rightarrow> NumberObject
    \<Rightarrow> GraphPoint \<Rightarrow> (real \<times> real \<times> GraphPoint) option" where
  "target_point cfg sm tots j boxName off1 a =
     (if boxName = ''elec''
      then do {
        te \<leftarrow> totals_get tots ''elec'';
        oe \<leftarrow> off1 ''elec'';
        dy \<leftarrow> Some (ELECTRICITY_BOX_Y cfg - te * SCALE + oe);
        c \<leftarrow> Some (ELECTRICITY_BOX_X cfg - 20 - (te * SCALE - oe) / SR3
                     - (real (length FUEL_NAMES) - real j) * PATH_GAP);
        Some (c, c - \<bar>py a - dy\<bar> / SR3, \<lparr>px = ELECTRICITY_BOX_X cfg, py = dy\<rparr>) }
      else if boxName = ''heat''
      then do {
        th \<leftarrow> totals_get tots ''heat'';
        oh \<leftarrow> off1 ''heat'';
        dy \<leftarrow> Some (HEAT_BOX_Y - th * SCALE + oh);
        c \<leftarrow> Some (HEAT_BOX_X - 20 - (th * SCALE - oh) / SR3
                     - (real (length FUEL_NAMES) - real j) * PATH_GAP);
        Some (c, c - \<bar>py a - dy\<bar> / SR3, \<lparr>px = HEAT_BOX_X, py = dy\<rparr>) }
      else do {
        bt \<leftarrow> boxTops sm boxName;
        ob \<leftarrow> off1 boxName;
        Some (0, 0, \<lparr>px = WIDTH cfg - BOX_WIDTH, py = bt + ob\<rparr>) })"

definition new_stroke ::
  "string \<Rightarrow> string \<Rightarrow> real \<Rightarrow> GraphPoint \<Rightarrow> real \<times> real \<times> GraphPoint \<Rightarrow> GraphStroke" where
  "new_stroke fuelName boxName v a t =
     \<lparr>fuel = fuelName, box = boxName, gvalue = v, stroke = v * SCALE / 2 * 2,
      pa = a, pb = \<lparr>px = fst (snd t), py = py a\<rparr>, pc = \<lparr>px = fst t, py = py (snd (snd t))\<rparr>,
      pd = snd (snd t), pcc = \<lparr>px = 0, py = 0\<rparr>\<rparr>"

text \<open>One fuel, one box, one new flow, and its clone for an electricity flow.\<close>

definition box_step ::
  "ConfigurationService \<Rightarrow> SummaryData \<Rightarrow> YearTotals option \<Rightarrow> EnergySectorBreakdown option
    \<Rightarrow> nat \<Rightarrow> string \<Rightarrow> EnergySectorBreakdown \<Rightarrow> GraphLoop \<Rightarrow> string \<Rightarrow> GraphLoop option" where
  "box_step cfg sm tots wasteObj j fuelName fuelObj st boxName =
     (if fuelName = boxName then Some st
      else if \<not> hasHeatData cfg \<and> boxName = ''heat'' then Some st
      else do {
        v \<leftarrow> fuelObj boxName;
        sa \<leftarrow> source_point cfg j st (v * SCALE / 2);
        off1 \<leftarrow> add_to (offs (fst sa)) boxName (v * SCALE / 2);
        t \<leftarrow> target_point cfg sm tots j boxName off1 (snd sa);
        off2 \<leftarrow> add_to off1 boxName (v * SCALE / 2);
        st2 \<leftarrow> Some ((fst sa)\<lparr>offs := off2,
                               leftY := (if j > 1 then leftY (fst sa) + v * SCALE / 2
                                         else leftY (fst sa)),
                               strokes := strokes (fst sa) @ [new_stroke fuelName boxName v (snd sa) t]\<rparr>);
        if j = 0
        then clone_step cfg wasteObj fuelName boxName (new_stroke fuelName boxName v (snd sa) t) st2
        else Some st2
      })"

text \<open>
  Level 2: one fuel. The assignment \<open>fuelObj.total = 0\<close> writes into the fuel object
  of the data point, so the data point is part of the state.
\<close>

definition fuel_graph_step ::
  "ConfigurationService \<Rightarrow> SummaryData \<Rightarrow> YearTotals option \<Rightarrow> EnergySectorBreakdown option
    \<Rightarrow> EnergyDataPoint \<times> GraphLoop \<Rightarrow> nat \<times> string \<Rightarrow> (EnergyDataPoint \<times> GraphLoop) option" where
  "fuel_graph_step cfg sm tots wasteObj pst jf =
     (let j = fst jf; fuelName = snd jf; point = fst pst; st = snd pst in
      if \<not> hasHeatData cfg \<and> fuelName = ''heat'' then Some pst
      else do {
        fuelObj0 \<leftarrow> sectors point fuelName;
        fuelObj \<leftarrow> Some (fuelObj0(''total'' \<mapsto> 0));
        boxes \<leftarrow> Some (sort_key (order_of (FLOW_PATHS_ORDER fuelName)) BOX_NAMES);
        st1 \<leftarrow> ofold (box_step cfg sm tots wasteObj j fuelName fuelObj) boxes st;
        Some (point\<lparr>sectors := (sectors point)(fuelName \<mapsto> fuelObj)\<rparr>,
              if j > 1 then st1\<lparr>leftY := leftY st1 + LEFT_GAP\<rparr> else st1)
      })"

definition first_of_year :: "int \<Rightarrow> NumberObject list \<Rightarrow> NumberObject option" where
  "first_of_year currentYear objs =
     (case filter (\<lambda>d. d ''year'' = Some (real_of_int currentYear)) objs of
        [] \<Rightarrow> None
      | d # _ \<Rightarrow> Some d)"

definition first_totals_of_year :: "int \<Rightarrow> YearTotals list \<Rightarrow> YearTotals option" where
  "first_totals_of_year currentYear ts =
     (case filter (\<lambda>d. nums d ''year'' = Some (real_of_int currentYear)) ts of
        [] \<Rightarrow> None
      | d # _ \<Rightarrow> Some d)"

text \<open>Level 1: the graph of the data point at index \<open>i\<close>.\<close>

definition year_graph_step ::
  "ConfigurationService \<Rightarrow> SummaryData \<Rightarrow> nat \<Rightarrow> EnergyDataPoint \<Rightarrow> (EnergyDataPoint \<times> GraphData) option" where
  "year_graph_step cfg sm i point =
     do {
       ti \<leftarrow> nth_opt (totals sm) (int i);
       te \<leftarrow> nums ti ''elec'';
       hy \<leftarrow> (if hasHeatData cfg
               then do { th \<leftarrow> nums ti ''heat''; Some (Some (HEAT_BOX_Y - th * SCALE)) }
               else Some None);
       (point', st) \<leftarrow>
         ofold (fuel_graph_step cfg sm (first_totals_of_year (year point) (totals sm))
                  (sectors point ''waste''))
           (zip [0..<length FUEL_NAMES] FUEL_NAMES)
           (point, \<lparr>strokes = [], leftY = LEFT_Y cfg, elecY = ELECTRICITY_BOX_Y cfg - te * SCALE,
                     heatY = hy,
                     offs = map_of (zero_keys [''elec'', ''res'', ''ag'', ''indus'', ''trans'']
                                    @ (if hasHeatData cfg then [(''heat'', 0)] else []))\<rparr>);
       Some (point',
             \<lparr>graph = strokes st,
              offsets_x = map_of (zero_keys [''solar'', ''nuclear'', ''hydro'', ''wind'', ''geo'',
                                             ''gas'', ''coal'', ''bio'', ''petro'']),
              offsets_y = offs st,
              graph_year = year point',
              graph_totals = first_totals_of_year (year point) (totals sm),
              graph_flows = first_of_year (year point) (flows sm)\<rparr>)
     }"

text \<open>
  \<open>calculateGraphY\<close>: every year in turn. The result is the data as the loop leaves it
  and the graphs.
\<close>

definition graphY_push ::
  "ConfigurationService \<Rightarrow> SummaryData \<Rightarrow> EnergyDataPoint list \<times> GraphData list
    \<Rightarrow> nat \<times> EnergyDataPoint \<Rightarrow> (EnergyDataPoint list \<times> GraphData list) option" where
  "graphY_push cfg sm acc ip =
     (case year_graph_step cfg sm (fst ip) (snd ip) of
        None \<Rightarrow> None
      | Some (point', gd) \<Rightarrow> Some (fst acc @ [point'], snd acc @ [gd]))"

definition calculateGraphY ::
  "ConfigurationService \<Rightarrow> DataService \<Rightarrow> SummaryData \<Rightarrow> (DataService \<times> GraphData list) option" where
  "calculateGraphY cfg ds sm =
     (case ofold (graphY_push cfg sm) (zip [0..<length (data ds)] (data ds)) ([], []) of
        None \<Rightarrow> None
      | Some (dat, graphs) \<Rightarrow> Some (ds\<lparr>data := dat\<rparr>, graphs))"

text \<open>
  The comparators \<open>sortGraphUp\<close> and \<open>sortGraphDown\<close> order by the position of the box
  in \<open>BOX_NAMES\<close>, then of the fuel in \<open>FUEL_NAMES\<close>, descending and ascending; the sort
  is stable, so it is a stable sort by these keys.
\<close>

definition sortGraphUp :: "GraphStroke \<Rightarrow> int \<times> int" where
  "sortGraphUp g = (- indexOf BOX_NAMES (box g), - indexOf FUEL_NAMES (fuel g))"

definition sortGraphDown :: "GraphStroke \<Rightarrow> int \<times> int" where
  "sortGraphDown g = (indexOf BOX_NAMES (box g), indexOf FUEL_NAMES (fuel g))"

definition hub_box :: "GraphStroke \<Rightarrow> bool" where
  "hub_box g = (box g \<in> set [''elec'', ''heat''])"

text \<open>
  \<open>filter(...).sort(...).forEach(...)\<close> works on the flow objects of the graph
  themselves: the model selects and sorts positions of the graph and updates the flow
  at each position in turn. The state of a pass is the graph, \<open>offsets.y\<close> and
  \<open>current_box\<close>; the argument is the index \<open>j\<close> of \<open>forEach\<close> and the position.
\<close>

definition ups_step ::
  "ConfigurationService \<Rightarrow> YearTotals option \<Rightarrow> GraphStroke list \<times> NumberObject \<times> string option
    \<Rightarrow> nat \<times> nat \<Rightarrow> (GraphStroke list \<times> NumberObject \<times> string option) option" where
  "ups_step cfg tots s jk =
     (let j = fst jk; k = snd jk; gr = fst s; off = fst (snd s); current_box = snd (snd s);
          g = gr ! k in
      do {
        (off', cx) \<leftarrow>
          (if Some (box g) \<noteq> current_box
           then Some (off(box g \<mapsto> stroke g / 2), WIDTH cfg - BOX_WIDTH - 20 - stroke g / 2)
           else do {
             t \<leftarrow> totals_get tots (box g);
             ob \<leftarrow> off (box g);
             Some (off, WIDTH cfg - BOX_WIDTH - 20 - (t * SCALE - ob) / SR3
                         - real j * ELECTRICITY_GAP cfg * HSR3) });
        fh \<leftarrow> totals_get tots ''fuel_height'';
        Some (gr[k := g\<lparr>pc := (pc g)\<lparr>px := cx\<rparr>,
                        pb := (pb g)\<lparr>px := cx - \<bar>py (pa g) - py (pc g)\<bar> / SR3\<rparr>,
                        pcc := (pcc g)\<lparr>px := cx - \<bar>fh - py (pc g)\<bar> / SR3\<rparr>\<rparr>],
              off', Some (box g))
      })"

definition downs_step ::
  "ConfigurationService \<Rightarrow> GraphStroke list \<times> NumberObject \<times> string option
    \<Rightarrow> nat \<times> nat \<Rightarrow> (GraphStroke list \<times> NumberObject \<times> string option) option" where
  "downs_step cfg s jk =
     (let j = fst jk; k = snd jk; gr = fst s; off = fst (snd s); current_box = snd (snd s);
          g = gr ! k in
      do {
        (off', cx) \<leftarrow>
          (if Some (box g) \<noteq> current_box
           then Some (off(box g \<mapsto> stroke g / 2), WIDTH cfg - BOX_WIDTH - 20 - stroke g / 2)
           else do {
             ob \<leftarrow> off (box g);
             Some (off, WIDTH cfg - BOX_WIDTH - 20 - ob / SR3 - real j * ELECTRICITY_GAP cfg * HSR3) });
        Some (gr[k := g\<lparr>pc := (pc g)\<lparr>px := cx\<rparr>,
                        pb := (pb g)\<lparr>px := cx - \<bar>py (pa g) - py (pc g)\<bar> / SR3\<rparr>,
                        pcc := (pcc g)\<lparr>px := cx - \<bar>ELECTRICITY_BOX_Y cfg - py (pc g)\<bar> / SR3\<rparr>\<rparr>],
              off', Some (box g))
      })"

definition positions :: "(GraphStroke \<Rightarrow> bool) \<Rightarrow> GraphStroke list \<Rightarrow> nat list" where
  "positions P gr = filter (\<lambda>k. P (gr ! k)) [0..<length gr]"

definition indexed :: "nat list \<Rightarrow> (nat \<times> nat) list" where
  "indexed ks = zip [0..<length ks] ks"

definition calculateGraphXUps :: "ConfigurationService \<Rightarrow> GraphData \<Rightarrow> GraphData option" where
  "calculateGraphXUps cfg gd =
     (let gr = graph gd;
          sel = sort_key (\<lambda>k. sortGraphUp (gr ! k))
                  (positions (\<lambda>g. py (pa g) > py (pd g) \<and> \<not> hub_box g) gr)
      in case ofold (ups_step cfg (graph_totals gd)) (indexed sel) (gr, offsets_y gd, None) of
           None \<Rightarrow> None
         | Some (gr', off', _) \<Rightarrow> Some (gd\<lparr>graph := gr', offsets_y := off'\<rparr>))"

definition calculateGraphXDowns :: "ConfigurationService \<Rightarrow> GraphData \<Rightarrow> GraphData option" where
  "calculateGraphXDowns cfg gd =
     (let gr = graph gd;
          sel = sort_key (\<lambda>k. sortGraphDown (gr ! k))
                  (positions (\<lambda>g. py (pa g) < py (pd g) \<and> \<not> hub_box g) gr)
      in case ofold (downs_step cfg) (indexed sel) (gr, offsets_y gd, None) of
           None \<Rightarrow> None
         | Some (gr', off', _) \<Rightarrow> Some (gd\<lparr>graph := gr', offsets_y := off'\<rparr>))"

definition calculateGraphX :: "ConfigurationService \<Rightarrow> GraphData \<Rightarrow> GraphData option" where
  "calculateGraphX cfg gd = do { gd1 \<leftarrow> calculateGraphXUps cfg gd; calculateGraphXDowns cfg gd1 }"

text \<open>
  \<open>spaceUpsAndDowns\<close>: sort the graph itself by \<open>cc.x\<close> descending, close up the gaps
  between neighbours, then move the bundle to the right margin. \<open>prev\<close> is the position
  of the previous flow.
\<close>

definition space_step :: "GraphStroke list \<times> nat \<Rightarrow> nat \<times> nat \<Rightarrow> GraphStroke list \<times> nat" where
  "space_step s jk =
     (let j = fst jk; k = snd jk; gr = fst s; g = gr ! k in
      if j = 0 then (gr, k)
      else (let prev = gr ! snd s;
                pathGap = (if stroke g = 0 then 0 else PATH_GAP * HSR3);
                diff = pathGap - ((px (pcc prev) - stroke prev / 2) - (px (pcc g) + stroke g / 2))
            in (gr[k := g\<lparr>pcc := (pcc g)\<lparr>px := px (pcc g) - diff\<rparr>,
                           pc := (pc g)\<lparr>px := px (pc g) - diff\<rparr>,
                           pb := (pb g)\<lparr>px := px (pb g) - diff\<rparr>\<rparr>], k)))"

definition anchor_step :: "ConfigurationService \<Rightarrow> real \<Rightarrow> GraphStroke list \<Rightarrow> nat \<Rightarrow> GraphStroke list" where
  "anchor_step cfg max_cc gr k =
     (let g = gr ! k; diff = max_cc - (WIDTH cfg - BOX_WIDTH - 50)
      in gr[k := g\<lparr>pc := (pc g)\<lparr>px := px (pc g) - diff\<rparr>,
                    pb := (pb g)\<lparr>px := px (pb g) - diff\<rparr>\<rparr>])"

definition spaceUpsAndDowns :: "ConfigurationService \<Rightarrow> GraphData \<Rightarrow> GraphData" where
  "spaceUpsAndDowns cfg gd =
     (let gr0 = sort_key (\<lambda>g. - px (pcc g)) (graph gd);
          gr1 = fst (fold (\<lambda>jk s. space_step s jk) (indexed (positions (\<lambda>g. \<not> hub_box g) gr0)) (gr0, 0))
      in case map (\<lambda>g. px (pcc g)) gr1 of
           [] \<Rightarrow> gd\<lparr>graph := gr1\<rparr>
         | c # cs \<Rightarrow>
             gd\<lparr>graph := fold (\<lambda>k gr. anchor_step cfg (fold max cs c) gr k)
                             (positions (\<lambda>g. \<not> hub_box g) gr1) gr1\<rparr>)"

text \<open>
  \<open>processWasteHeatFlows\<close>: of the electricity flows in \<open>sortGraphDown\<close> order, every
  second one becomes the waste flow of the one before it.
\<close>

definition waste_step :: "GraphStroke list \<times> nat option \<Rightarrow> nat \<times> nat \<Rightarrow> GraphStroke list \<times> nat option" where
  "waste_step s jk =
     (let j = fst jk; k = snd jk; gr = fst s; prev_graph = snd s; g = gr ! k in
      if j mod 2 \<noteq> 0
      then (case prev_graph of
              None \<Rightarrow> (gr[k := g\<lparr>fuel := ''waste''\<rparr>], prev_graph)
            | Some pk \<Rightarrow>
                (let prev = gr ! pk; total_stroke = \<bar>stroke prev + stroke g\<bar>
                 in (gr[k := g\<lparr>fuel := ''waste'',
                                pa := (pa g)\<lparr>py := py (pa prev) + total_stroke / 2\<rparr>,
                                pb := \<lparr>px = px (pb prev) - total_stroke / 3.5,
                                       py = py (pa prev) + total_stroke / 2\<rparr>,
                                pc := \<lparr>px = px (pc prev) - total_stroke / 3.5,
                                       py = py (pc prev) + total_stroke / 2\<rparr>,
                                pd := (pd g)\<lparr>py := py (pc prev) + total_stroke / 2\<rparr>\<rparr>],
                     prev_graph)))
      else (gr, Some k))"

definition processWasteHeatFlows :: "GraphData \<Rightarrow> GraphData" where
  "processWasteHeatFlows gd =
     (let gr = graph gd;
          sel = sort_key (\<lambda>k. sortGraphDown (gr ! k)) (positions (\<lambda>g. fuel g = ''elec'') gr)
      in gd\<lparr>graph := fst (fold (\<lambda>jk s. waste_step s jk) (indexed sel) (gr, None))\<rparr>)"

text \<open>An array method applied to every graph, stopping at the first failure.\<close>

fun omap :: "('a \<Rightarrow> 'b option) \<Rightarrow> 'a list \<Rightarrow> 'b list option" where
  "omap f [] = Some []"
| "omap f (x # xs) =
     (case f x of
        None \<Rightarrow> None
      | Some y \<Rightarrow> (case omap f xs of None \<Rightarrow> None | Some ys \<Rightarrow> Some (y # ys)))"

text \<open>\<open>buildGraphs\<close>: the four passes, for all years.\<close>

definition buildGraphs ::
  "ConfigurationService \<Rightarrow> DataService \<Rightarrow> SummaryData \<Rightarrow> (DataService \<times> GraphData list) option" where
  "buildGraphs cfg ds sm =
     do {
       (ds', graphs1) \<leftarrow> calculateGraphY cfg ds sm;
       graphs2 \<leftarrow> omap (calculateGraphX cfg) graphs1;
       Some (ds', map processWasteHeatFlows (map (spaceUpsAndDowns cfg) graphs2))
     }"

subsection \<open>AnimationService\<close>

datatype event =
    YearChanged int int int bool
  | AnimationStarted int real
  | AnimationStopped int real
  | SpeedChanged real

text \<open>
  The animation state of the service together with what it acts on: the option
  \<open>loopAnimation\<close>, the year that the slider, the year display and the chart show, the
  interval timers of the window that are running, the number of \<open>setTimeout\<close> callbacks
  (each calling \<open>play\<close>) that have not fired yet, and the events emitted so far.
\<close>

record AnimationService =
  currentYearIndex :: int
  isAnimating :: bool
  animationTimer :: "nat option"
  speed :: real
  loopAnimation :: bool
  shownYear :: "int option"
  intervals :: "nat list"
  nextTimerId :: nat
  pendingPlay :: nat
  emitted :: "event list"

text \<open>\<open>years[currentYearIndex] || firstYear\<close>: an absent or zero entry falls back.\<close>

definition getCurrentYear :: "DataService \<Rightarrow> AnimationService \<Rightarrow> int" where
  "getCurrentYear ds s =
     (case nth_opt (years ds) (currentYearIndex s) of
        Some y \<Rightarrow> if y \<noteq> 0 then y else firstYear ds
      | None \<Rightarrow> firstYear ds)"

definition isPlaying :: "AnimationService \<Rightarrow> bool" where
  "isPlaying s = isAnimating s"

definition setYear :: "DataService \<Rightarrow> int \<Rightarrow> AnimationService \<Rightarrow> AnimationService" where
  "setYear ds y s =
     (let yearIndex = getYearIndex ds y in
      if yearIndex = - 1 then s
      else (let previousYear = getCurrentYear ds s;
                s1 = s\<lparr>currentYearIndex := yearIndex, shownYear := Some y\<rparr>
            in s1\<lparr>emitted := emitted s1 @ [YearChanged y previousYear yearIndex (isAnimating s1)]\<rparr>))"

text \<open>\<open>setInterval\<close> hands out a fresh identifier greater than zero.\<close>

definition play :: "DataService \<Rightarrow> AnimationService \<Rightarrow> AnimationService" where
  "play ds s =
     (if isAnimating s then s
      else (let t = Suc (nextTimerId s);
                s1 = s\<lparr>isAnimating := True, animationTimer := Some t,
                       intervals := t # intervals s, nextTimerId := t\<rparr>
            in s1\<lparr>emitted := emitted s1 @ [AnimationStarted (getCurrentYear ds s1) (speed s1)]\<rparr>))"

definition pause :: "DataService \<Rightarrow> AnimationService \<Rightarrow> AnimationService" where
  "pause ds s =
     (if \<not> isAnimating s then s
      else (let s1 = s\<lparr>isAnimating := False\<rparr>;
                s2 = (case animationTimer s1 of
                        Some t \<Rightarrow> if t \<noteq> 0
                                  then s1\<lparr>intervals := removeAll t (intervals s1), animationTimer := None\<rparr>
                                  else s1
                      | None \<Rightarrow> s1)
            in s2\<lparr>emitted := emitted s2 @ [AnimationStopped (getCurrentYear ds s2) (speed s2)]\<rparr>))"

definition nextYear :: "DataService \<Rightarrow> AnimationService \<Rightarrow> AnimationService" where
  "nextYear ds s =
     (if currentYearIndex s < int (yearsLength ds) - 1
      then (let s1 = s\<lparr>currentYearIndex := currentYearIndex s + 1\<rparr>
            in (case nth_opt (years ds) (currentYearIndex s1) of
                  Some y \<Rightarrow> setYear ds y s1
                | None \<Rightarrow> s1))
      else s)"

definition previousYear :: "DataService \<Rightarrow> AnimationService \<Rightarrow> AnimationService" where
  "previousYear ds s =
     (if currentYearIndex s > 0
      then (let s1 = s\<lparr>currentYearIndex := currentYearIndex s - 1\<rparr>
            in (case nth_opt (years ds) (currentYearIndex s1) of
                  Some y \<Rightarrow> setYear ds y s1
                | None \<Rightarrow> s1))
      else s)"

definition nextFrame :: "DataService \<Rightarrow> AnimationService \<Rightarrow> AnimationService" where
  "nextFrame ds s =
     (if currentYearIndex s + 1 \<ge> int (yearsLength ds)
      then (let s1 = s\<lparr>currentYearIndex := 0\<rparr>
            in if \<not> loopAnimation s1 then pause ds s1 else nextYear ds s1)
      else nextYear ds s)"

text \<open>
  \<open>setSpeed\<close> returns the error it throws, if any, and the state it leaves behind.
\<close>

definition setSpeed ::
  "DataService \<Rightarrow> real \<Rightarrow> AnimationService \<Rightarrow> error option \<times> AnimationService" where
  "setSpeed ds sp s =
     (if sp \<le> 0 then (Some (Error ''Animation speed must be positive''), s)
      else (let s1 = s\<lparr>speed := sp\<rparr>;
                s2 = (if isAnimating s1
                      then (let s' = pause ds s1 in s'\<lparr>pendingPlay := Suc (pendingPlay s')\<rparr>)
                      else s1)
            in (None, s2\<lparr>emitted := emitted s2 @ [SpeedChanged sp]\<rparr>)))"

definition cleanup :: "DataService \<Rightarrow> AnimationService \<Rightarrow> AnimationService" where
  "cleanup ds s = (pause ds s)\<lparr>currentYearIndex := 0, isAnimating := False\<rparr>"

text \<open>The window fires the callback of every interval timer that is still running.\<close>

definition tick :: "DataService \<Rightarrow> AnimationService \<Rightarrow> AnimationService" where
  "tick ds s = fold (\<lambda>t s'. if t \<in> set (intervals s') then nextFrame ds s' else s') (intervals s) s"

subsection \<open>Sankey: the public operations and destroy\<close>

text \<open>
  The facade. \<open>animation\<close> is the \<open>AnimationService\<close> object itself, which outlives the
  entry \<open>services.animationService\<close> (the flag \<open>hasAnimationService\<close>) as long as a timer
  callback refers to it. \<open>busSubscriptions\<close> are the subscriptions the event bus
  holds, \<open>keypressListener\<close> the listener added to the document.
\<close>

record Sankey =
  initialized :: bool
  destroyed :: bool
  subscriptions :: "nat list"
  busSubscriptions :: "nat list"
  svg :: bool
  tooltip :: bool
  hasAnimationService :: bool
  hasDataService :: bool
  keypressListener :: bool
  animation :: AnimationService

definition Sankey_play :: "DataService \<Rightarrow> Sankey \<Rightarrow> Sankey" where
  "Sankey_play ds w =
     (if \<not> initialized w then w
      else if hasAnimationService w then w\<lparr>animation := play ds (animation w)\<rparr> else w)"

definition Sankey_pause :: "DataService \<Rightarrow> Sankey \<Rightarrow> Sankey" where
  "Sankey_pause ds w =
     (if \<not> initialized w then w
      else if hasAnimationService w then w\<lparr>animation := pause ds (animation w)\<rparr> else w)"

definition Sankey_setYear :: "DataService \<Rightarrow> int \<Rightarrow> Sankey \<Rightarrow> Sankey" where
  "Sankey_setYear ds y w =
     (if \<not> initialized w then w
      else if hasAnimationService w then w\<lparr>animation := setYear ds y (animation w)\<rparr> else w)"

definition Sankey_getCurrentYear :: "EnergyDataPoint list \<Rightarrow> DataService \<Rightarrow> Sankey \<Rightarrow> int" where
  "Sankey_getCurrentYear optionsData ds w =
     (if hasAnimationService w then getCurrentYear ds (animation w)
      else if hasDataService w then firstYear ds
      else (case optionsData of
              [] \<Rightarrow> 1800
            | p # _ \<Rightarrow> if year p \<noteq> 0 then year p else 1800))"

definition Sankey_isPlaying :: "Sankey \<Rightarrow> bool" where
  "Sankey_isPlaying w =
     (if \<not> initialized w then False
      else if hasAnimationService w then isPlaying (animation w) else False)"

text \<open>
  \<open>destroy\<close>: unsubscribe, clear the event bus, remove the DOM nodes, drop the services.
  The disposal of the services is commented out in the source; nothing calls
  \<open>AnimationService.cleanup\<close> or \<open>pause\<close>, and nothing removes the keypress listener.
\<close>

definition destroy :: "Sankey \<Rightarrow> Sankey" where
  "destroy w =
     (if destroyed w then w
      else w\<lparr>busSubscriptions := [],
             subscriptions := [],
             svg := False,
             tooltip := False,
             hasAnimationService := False,
             hasDataService := False,
             destroyed := True,
             initialized := False\<rparr>)"

definition window_tick :: "DataService \<Rightarrow> Sankey \<Rightarrow> Sankey" where
  "window_tick ds w = w\<lparr>animation := tick ds (animation w)\<rparr>"

text \<open>Example states: three years of example data, the display on the last year.\<close>

definition three_years :: "EnergyDataPoint list" where
  "three_years = [flat_point 2000 1, flat_point 2001 1, flat_point 2002 1]"

definition ds3 :: DataService where
  "ds3 = \<lparr>data = three_years, years = [2000, 2001, 2002], yearsLength = 3,
          firstYear = 2000, lastYear = 2002\<rparr>"

definition stopped_at :: "int \<Rightarrow> bool \<Rightarrow> AnimationService" where
  "stopped_at i loop =
     \<lparr>currentYearIndex = i, isAnimating = False, animationTimer = None, speed = 200,
      loopAnimation = loop, shownYear = nth_opt [2000, 2001, 2002] i, intervals = [],
      nextTimerId = 0, pendingPlay = 0, emitted = []\<rparr>"

definition sankey0 :: Sankey where
  "sankey0 =
     \<lparr>initialized = True, destroyed = False, subscriptions = [1, 2], busSubscriptions = [1, 2],
      svg = True, tooltip = True, hasAnimationService = True, hasDataService = True,
      keypressListener = True, animation = stopped_at 0 False\<rparr>"

subsection \<open>Quantities used in the statements\<close>

text \<open>
  \<open>num\<close> reads a number that may be absent (0 then); \<open>qty p f b\<close> is the quantity
  of fuel \<open>f\<close> going to box \<open>b\<close> in the data point \<open>p\<close>. \<open>used_boxes\<close> are the
  boxes the loops visit: all of \<open>BOX_NAMES\<close>, without \<open>heat\<close> unless there is heat
  data. \<open>extras\<close> is what the first fuel iteration adds to a box on top of the fuel's
  own quantity, \<open>contrib\<close> what one (fuel, box) iteration adds to the key \<open>k\<close>.
\<close>

definition num :: "real option \<Rightarrow> real" where
  "num x = (case x of Some v \<Rightarrow> v | None \<Rightarrow> 0)"

definition qty :: "EnergyDataPoint \<Rightarrow> string \<Rightarrow> string \<Rightarrow> real" where
  "qty p f b = num (rd p f b)"

definition used :: "ConfigurationService \<Rightarrow> string \<Rightarrow> bool" where
  "used cfg name = (hasHeatData cfg \<or> name \<noteq> ''heat'')"

definition used_boxes :: "ConfigurationService \<Rightarrow> string list" where
  "used_boxes cfg = filter (used cfg) BOX_NAMES"

definition extras :: "ConfigurationService \<Rightarrow> EnergyDataPoint \<Rightarrow> nat \<Rightarrow> string \<Rightarrow> real" where
  "extras cfg p j b =
     (if j = 2 \<and> b \<noteq> ''elec'' then qty p ''elec'' b + qty p ''waste'' b else 0)
     + (if j = 2 \<and> b \<noteq> ''heat'' \<and> hasHeatData cfg then qty p ''heat'' b else 0)"

definition contrib :: "ConfigurationService \<Rightarrow> EnergyDataPoint \<Rightarrow> nat \<Rightarrow> string \<Rightarrow> string \<Rightarrow> string \<Rightarrow> real" where
  "contrib cfg p j f k b =
     (if k = b then qty p f b + extras cfg p j b else 0) + (if k = f then qty p f b else 0)"

definition fuel_contrib :: "ConfigurationService \<Rightarrow> EnergyDataPoint \<Rightarrow> string \<Rightarrow> nat \<times> string \<Rightarrow> real" where
  "fuel_contrib cfg p k jf =
     (if used cfg (snd jf) then (\<Sum>b\<leftarrow>used_boxes cfg. contrib cfg p (fst jf) (snd jf) k b) else 0)"

text \<open>A data point in which every quantity the totals loop reads is present.\<close>

definition complete_point :: "ConfigurationService \<Rightarrow> EnergyDataPoint \<Rightarrow> bool" where
  "complete_point cfg p =
     (\<forall>f\<in>set ([''elec'', ''waste''] @ (if hasHeatData cfg then [''heat''] else []) @ map snd fuel_indices).
        \<forall>b\<in>set (used_boxes cfg). rd p f b \<noteq> None)"

definition keys_ok :: "ConfigurationService \<Rightarrow> TotalsLoop \<Rightarrow> bool" where
  "keys_ok cfg st =
     ((\<forall>k\<in>set (used_boxes cfg @ map snd fuel_indices @ [''fuel_height'']). total st k \<noteq> None)
      \<and> (\<forall>k\<in>set (used_boxes cfg). flow st k \<noteq> None))"

text \<open>Example: the data service of a one-year dataset and its summary.\<close>

definition ds1 :: "real \<Rightarrow> DataService" where
  "ds1 v = \<lparr>data = [flat_point 2000 v], years = [2000], yearsLength = 1,
            firstYear = 2000, lastYear = 2000\<rparr>"

definition tot :: "SummaryData \<Rightarrow> nat \<Rightarrow> string \<Rightarrow> real" where
  "tot sm i k = num (nums (totals sm ! i) k)"

definition sm_one :: "real \<Rightarrow> SummaryData" where
  "sm_one v = the (buildSummary cfg0 (ds1 v))"

text \<open>
  For the flow geometry: \<open>law\<close> is the relation between the width and the value of a
  flow. The other predicates say which keys the objects that \<open>buildGraphs\<close> reads must
  have so that no read is of an absent property: the boxes of the flows, the offsets, the
  totals of the year, the box tops, the waste object, and the states of the loops.
\<close>

definition law :: "GraphStroke \<Rightarrow> bool" where
  "law g = (stroke g = gvalue g * SCALE)"

definition boxes_ok :: "ConfigurationService \<Rightarrow> GraphStroke list \<Rightarrow> bool" where
  "boxes_ok cfg gr = list_all (\<lambda>g. box g \<in> set (used_boxes cfg)) gr"

definition offs_ok :: "ConfigurationService \<Rightarrow> NumberObject \<Rightarrow> bool" where
  "offs_ok cfg off = (\<forall>b\<in>set (used_boxes cfg). \<exists>v. off b = Some v)"

definition totals_ok :: "ConfigurationService \<Rightarrow> YearTotals option \<Rightarrow> bool" where
  "totals_ok cfg tots =
     (\<forall>k\<in>set (''fuel_height'' # used_boxes cfg). \<exists>v. totals_get tots k = Some v)"

definition tops_ok :: "SummaryData \<Rightarrow> bool" where
  "tops_ok sm = (\<forall>k\<in>set [''res'', ''ag'', ''indus'', ''trans'']. \<exists>v. boxTops sm k = Some v)"

definition waste_ok :: "ConfigurationService \<Rightarrow> EnergySectorBreakdown option \<Rightarrow> bool" where
  "waste_ok cfg wasteObj = (\<exists>wo. wasteObj = Some wo \<and> (\<forall>b\<in>set (used_boxes cfg). \<exists>v. wo b = Some v))"

definition loop_ok :: "ConfigurationService \<Rightarrow> GraphLoop \<Rightarrow> bool" where
  "loop_ok cfg st = (offs_ok cfg (offs st) \<and> boxes_ok cfg (strokes st))"

definition point_loop_ok :: "ConfigurationService \<Rightarrow> EnergyDataPoint \<times> GraphLoop \<Rightarrow> bool" where
  "point_loop_ok cfg pst = (complete_point cfg (fst pst) \<and> loop_ok cfg (snd pst))"

definition gd_ok :: "ConfigurationService \<Rightarrow> GraphData \<Rightarrow> bool" where
  "gd_ok cfg gd = (totals_ok cfg (graph_totals gd) \<and> offs_ok cfg (offsets_y gd) \<and> boxes_ok cfg (graph gd))"

definition xstate_ok ::
  "ConfigurationService \<Rightarrow> nat \<Rightarrow> GraphStroke list \<times> NumberObject \<times> string option \<Rightarrow> bool" where
  "xstate_ok cfg n s = (length (fst s) = n \<and> boxes_ok cfg (fst s) \<and> offs_ok cfg (fst (snd s)))"

subsection \<open>Properties of the data store\<close>

lemma indexOf_ge: "- 1 \<le> indexOf xs y"
  by (induction xs) (auto simp: Let_def)

lemma indexOf_notin: "indexOf xs y = - 1 \<longleftrightarrow> y \<notin> set xs"
proof (induction xs)
  case Nil
  then show ?case by simp
next
  case (Cons x xs)
  have "- 1 \<le> indexOf xs y" by (rule indexOf_ge)
  with Cons show ?case by (auto simp: Let_def)
qed

lemma indexOf_nth_distinct:
  "distinct xs \<Longrightarrow> i < length xs \<Longrightarrow> indexOf xs (xs ! i) = int i"
proof (induction xs arbitrary: i)
  case Nil
  then show ?case by simp
next
  case (Cons x xs)
  show ?case
  proof (cases i)
    case 0
    then show ?thesis by simp
  next
    case (Suc k)
    with Cons.prems have k: "k < length xs" and nin: "x \<notin> set xs" and d: "distinct xs"
      by auto
    from k nin have "xs ! k \<noteq> x" by (metis nth_mem)
    with Cons.IH [OF d k] Suc show ?thesis by (simp add: Let_def)
  qed
qed

lemma validateData_nonempty: "validateData cfg dat = Inr cfg' \<Longrightarrow> dat \<noteq> []"
  by (auto simp: validateData_def split: if_splits)

lemma check_points_flat:
  "y \<noteq> 0 \<Longrightarrow> check_sectors (flat_point y v) requiredSectors = Inr ()"
  by (simp add: flat_point_def flat_breakdown_def requiredSectors_def requiredBreakdown_def)

lemma flat_point_year [simp]: "year (flat_point y v) = y"
  by (simp add: flat_point_def)

lemma flat_point_no_heat [simp]: "sectors (flat_point y v) ''heat'' = None"
  by (simp add: flat_point_def requiredSectors_def)

lemma validate_three: "validateData cfg0 three_years = Inr cfg0"
  by (simp add: validateData_def three_years_def check_points_flat)

lemma new_three: "new_DataService cfg0 three_years = Inr (cfg0, ds3)"
  by (simp add: new_DataService_def validate_three Let_def ds3_def)
     (simp add: three_years_def)

lemma sorted_hd_le: "sorted xs \<Longrightarrow> y \<in> set xs \<Longrightarrow> hd xs \<le> (y::int)"
  by (induction xs) auto

lemma sorted_le_last: "sorted xs \<Longrightarrow> y \<in> set xs \<Longrightarrow> (y::int) \<le> last xs"
  by (induction xs) auto

lemma new_DataService_years:
  assumes "new_DataService cfg energyData = Inr (cfg', ds)"
  shows "years ds = map year (sort_key year energyData)"
    and "data ds = sort_key year energyData"
    and "firstYear ds = hd (years ds)" and "lastYear ds = last (years ds)"
    and "yearsLength ds = length (years ds)" and "energyData \<noteq> []"
  using assms
  by (auto simp: new_DataService_def Let_def validateData_def split: sum.splits if_splits)

text \<open>
  The years are sorted, the first is the least and the last the greatest: a year outside
  the range is a year the dataset does not have.
\<close>

lemma outside_range_absent:
  assumes "new_DataService cfg energyData = Inr (cfg', ds)"
    and "y < firstYear ds \<or> lastYear ds < y \<or> y \<notin> set (years ds)"
  shows "y \<notin> set (years ds)"
proof
  assume mem: "y \<in> set (years ds)"
  have srt: "sorted (years ds)"
    using new_DataService_years(1) [OF assms(1)] by simp
  from sorted_hd_le [OF srt mem] sorted_le_last [OF srt mem] assms(2) mem
    new_DataService_years(3,4) [OF assms(1)]
  show False by auto
qed

subsection \<open>Navigation to a year that is not there\<close>

text \<open>
  C5. For a data service built from a dataset that passed validation, \<open>setYear y\<close> with
  \<open>y\<close> before the first year, after the last year, or absent from the dataset returns
  the animation state as it was; \<open>getCurrentYear\<close> gives the same year before and after,
  on the animation service and through the facade's \<open>setYear\<close> and \<open>getCurrentYear\<close>.
\<close>

theorem setYear_boundary_rejection:
  assumes "new_DataService cfg energyData = Inr (cfg', ds)"
    and "y < firstYear ds \<or> lastYear ds < y \<or> y \<notin> set (years ds)"
  shows "setYear ds y s = s
       \<and> getCurrentYear ds (setYear ds y s) = getCurrentYear ds s
       \<and> Sankey_getCurrentYear energyData ds (Sankey_setYear ds y w)
           = Sankey_getCurrentYear energyData ds w"
proof -
  have "y \<notin> set (years ds)" by (rule outside_range_absent [OF assms])
  then have "getYearIndex ds y = - 1" by (simp add: getYearIndex_def indexOf_notin)
  then have "setYear ds y s = s" for s by (simp add: setYear_def)
  then show ?thesis by (simp add: Sankey_setYear_def Sankey_getCurrentYear_def)
qed

theorem setYear_boundary_rejection_witness:
  "new_DataService cfg0 three_years = Inr (cfg0, ds3)
   \<and> 1999 < firstYear ds3
   \<and> setYear ds3 1999 (stopped_at 1 False) = stopped_at 1 False
   \<and> getCurrentYear ds3 (setYear ds3 1999 (stopped_at 1 False)) = 2001"
proof -
  have a: "1999 < firstYear ds3 \<or> lastYear ds3 < 1999 \<or> 1999 \<notin> set (years ds3)"
    by (simp add: ds3_def)
  have b: "getCurrentYear ds3 (stopped_at 1 False) = 2001"
    by (simp add: getCurrentYear_def ds3_def stopped_at_def nth_opt_def)
  from setYear_boundary_rejection [OF new_three a, of "stopped_at 1 False"] new_three b
  show ?thesis by (simp add: ds3_def)
qed

subsection \<open>Index and year\<close>

lemma distinct_map_insort_key:
  "distinct (map f (insort_key f x xs)) \<longleftrightarrow> f x \<notin> f ` set xs \<and> distinct (map f xs)"
  by (induction xs) (auto simp: set_insort_key)

lemma distinct_map_sort_key: "distinct (map f (sort_key f xs)) \<longleftrightarrow> distinct (map f xs)"
  by (induction xs) (auto simp: distinct_map_insort_key)

text \<open>When no two data points share a year, index to year to index is the identity.\<close>

lemma roundtrip_distinct_years:
  assumes "new_DataService cfg energyData = Inr (cfg', ds)"
    and "distinct (map year energyData)"
    and "0 \<le> i" and "i < int (length (data ds))"
  shows "\<exists>p. getYearDataByIndex ds i = Some p \<and> getYearIndex ds (year p) = i"
proof -
  have ys: "years ds = map year (data ds)"
    using new_DataService_years(1,2) [OF assms(1)] by simp
  have d: "distinct (years ds)"
    using new_DataService_years(1) [OF assms(1)] assms(2) by (simp add: distinct_map_sort_key)
  have n: "nat i < length (years ds)" using assms(3,4) ys by simp
  have "indexOf (years ds) (years ds ! nat i) = int (nat i)"
    by (rule indexOf_nth_distinct [OF d n])
  moreover have "years ds ! nat i = year (data ds ! nat i)" using n ys by simp
  ultimately show ?thesis using assms(3,4) by (simp add: getYearDataByIndex_def getYearIndex_def)
qed

text \<open>
  C6. The round trip \<open>getYearIndex (getYearDataByIndex i).year = i\<close> is claimed for every
  dataset that validation accepts. Two data points of the year 2000 are accepted, the
  data service has two records, and the year of the record at index 1 is mapped back
  to index 0.
\<close>

theorem roundtrip_repeated_year:
  "(case new_DataService cfg0 [flat_point 2000 1, flat_point 2000 2] of
      Inl e \<Rightarrow> False
    | Inr (c, ds) \<Rightarrow>
        length (data ds) = 2
        \<and> getYearDataByIndex ds 1 = Some (flat_point 2000 2)
        \<and> getYearIndex ds (year (flat_point 2000 2)) = 0)"
  by (simp add: new_DataService_def validateData_def check_points_flat Let_def
        getYearDataByIndex_def getYearIndex_def)

subsection \<open>Playback\<close>

lemma pause_speed [simp]: "speed (pause ds s) = speed s"
  by (simp add: pause_def Let_def split: option.splits)

text \<open>
  C10. \<open>setSpeed s\<close> with \<open>s \<le> 0\<close> throws the error "Animation speed must be positive"
  and leaves the whole animation state, so the stored speed and the playing flag, as it
  was; with \<open>s > 0\<close> it throws nothing and the stored speed is \<open>s\<close>.
\<close>

theorem setSpeed_rejects_nonpositive:
  "(sp \<le> 0 \<longrightarrow> setSpeed ds sp s = (Some (Error ''Animation speed must be positive''), s))
   \<and> (0 < sp \<longrightarrow> fst (setSpeed ds sp s) = None \<and> speed (snd (setSpeed ds sp s)) = sp)"
  by (simp add: setSpeed_def Let_def)

theorem setSpeed_rejects_nonpositive_witness:
  "(- 5 :: real) \<le> 0
   \<and> setSpeed ds3 (- 5) (play ds3 (stopped_at 0 False))
       = (Some (Error ''Animation speed must be positive''), play ds3 (stopped_at 0 False))
   \<and> (0 :: real) < 100
   \<and> speed (snd (setSpeed ds3 100 (play ds3 (stopped_at 0 False)))) = 100"
  using setSpeed_rejects_nonpositive [of "- 5" ds3 "play ds3 (stopped_at 0 False)"]
    setSpeed_rejects_nonpositive [of 100 ds3 "play ds3 (stopped_at 0 False)"]
  by simp

text \<open>
  C8. Playing on the last of three years (index 2, year 2002), one timer tick. Without
  looping the engine stops and clears its timer, but the year index is 0 afterwards, not
  2: \<open>getCurrentYear\<close> answers 2000 while the display still shows 2002. With looping the
  index is 1 afterwards and the display shows 2001, the second year, not the first.
\<close>

theorem tick_at_last_year:
  "(let s = play ds3 (stopped_at 2 False); s' = tick ds3 s
    in isPlaying s \<and> currentYearIndex s = 2 \<and> getCurrentYear ds3 s = 2002
       \<and> \<not> isPlaying s' \<and> animationTimer s' = None \<and> intervals s' = []
       \<and> currentYearIndex s' = 0 \<and> getCurrentYear ds3 s' = 2000 \<and> shownYear s' = Some 2002)
   \<and> (let s = play ds3 (stopped_at 2 True); s' = tick ds3 s
      in isPlaying s \<and> currentYearIndex s = 2
         \<and> isPlaying s' \<and> currentYearIndex s' = 1 \<and> shownYear s' = Some 2001
         \<and> getCurrentYear ds3 s' = 2001)"
  by (simp add: Let_def play_def stopped_at_def tick_def nextFrame_def pause_def nextYear_def
        setYear_def getYearIndex_def getCurrentYear_def nth_opt_def isPlaying_def ds3_def)

lemma destroy_idempotent: "destroy (destroy w) = destroy w"
  by (simp add: destroy_def)

text \<open>
  C9. \<open>destroy\<close> called while the animation is playing: the facade is destroyed and a
  second \<open>destroy\<close> changes nothing, but the animation service still has its timer, the
  timer is still running in the window, the keypress listener is still registered, and
  the next tick advances the year from index 0 to index 1.
\<close>

theorem destroy_while_playing:
  "(let w = destroy (Sankey_play ds3 sankey0)
    in destroyed w \<and> destroy w = w
       \<and> isAnimating (animation w) \<and> animationTimer (animation w) = Some 1
       \<and> intervals (animation w) = [1] \<and> keypressListener w
       \<and> currentYearIndex (animation w) = 0
       \<and> currentYearIndex (animation (window_tick ds3 w)) = 1
       \<and> shownYear (animation (window_tick ds3 w)) = Some 2001)"
  by (simp add: Let_def destroy_def Sankey_play_def sankey0_def play_def stopped_at_def
        window_tick_def tick_def nextFrame_def pause_def nextYear_def
        setYear_def getYearIndex_def getCurrentYear_def nth_opt_def ds3_def)

subsection \<open>The totals in closed form\<close>

lemma add_to_Some: "add_to m k x = Some m' \<longleftrightarrow> (\<exists>v. m k = Some v \<and> m' = m(k \<mapsto> v + x))"
  by (auto simp: add_to_def split: option.splits)

lemma add_to_at:
  "add_to m a x = Some m' \<Longrightarrow> m' k = map_option (\<lambda>v. v + (if k = a then x else 0)) (m k)"
  by (cases "m k") (auto simp: add_to_Some)

lemma elec_waste_at:
  assumes "(if j = 2 \<and> b \<noteq> ''elec''
            then do { e \<leftarrow> rd p ''elec'' b; t \<leftarrow> add_to t2 b e; w \<leftarrow> rd p ''waste'' b; add_to t b w }
            else Some t2) = Some t3"
  shows "t3 k = map_option (\<lambda>v. v + (if k = b then (if j = 2 \<and> b \<noteq> ''elec''
                                  then qty p ''elec'' b + qty p ''waste'' b else 0) else 0)) (t2 k)"
proof (cases "j = 2 \<and> b \<noteq> ''elec''")
  case False
  with assms show ?thesis by (cases "t2 k") auto
next
  case True
  with assms obtain e t w where e: "rd p ''elec'' b = Some e" and t: "add_to t2 b e = Some t"
    and w: "rd p ''waste'' b = Some w" and t3: "add_to t b w = Some t3"
    by (auto simp: bind_eq_Some_conv)
  show ?thesis
    using add_to_at [OF t, of k] add_to_at [OF t3, of k] True e w
    by (cases "t2 k") (auto simp: qty_def num_def)
qed

lemma heat_at:
  assumes "(if j = 2 \<and> b \<noteq> ''heat'' \<and> hasHeatData cfg
            then do { h \<leftarrow> rd p ''heat'' b; add_to t3 b h }
            else Some t3) = Some t4"
  shows "t4 k = map_option (\<lambda>v. v + (if k = b then (if j = 2 \<and> b \<noteq> ''heat'' \<and> hasHeatData cfg
                                  then qty p ''heat'' b else 0) else 0)) (t3 k)"
proof (cases "j = 2 \<and> b \<noteq> ''heat'' \<and> hasHeatData cfg")
  case False
  with assms show ?thesis by (cases "t3 k") auto
next
  case True
  with assms obtain h where h: "rd p ''heat'' b = Some h" and t4: "add_to t3 b h = Some t4"
    by (auto simp: bind_eq_Some_conv)
  show ?thesis
    using add_to_at [OF t4, of k] True h
    by (cases "t3 k") (auto simp: qty_def num_def)
qed

lemma sector_step_total:
  assumes "sector_step cfg p j f fo st b = Some st'" and "sectors p f = Some fo"
  shows "total st' k = map_option (\<lambda>v. v + (if used cfg b then contrib cfg p j f k b else 0)) (total st k)"
proof (cases "used cfg b")
  case False
  with assms show ?thesis by (cases "total st k") (auto simp: sector_step_def used_def)
next
  case True
  then have nh: "\<not> (\<not> hasHeatData cfg \<and> b = ''heat'')" by (auto simp: used_def)
  from assms(1) obtain v t1 t2 t3 t4 where v: "fo b = Some v"
    and t1: "add_to (total st) b v = Some t1"
    and t2: "add_to t1 f v = Some t2"
    and t3: "(if j = 2 \<and> b \<noteq> ''elec''
            then do { e \<leftarrow> rd p ''elec'' b; t \<leftarrow> add_to t2 b e; w \<leftarrow> rd p ''waste'' b; add_to t b w }
            else Some t2) = Some t3"
    and t4: "(if j = 2 \<and> b \<noteq> ''heat'' \<and> hasHeatData cfg
            then do { h \<leftarrow> rd p ''heat'' b; add_to t3 b h }
            else Some t3) = Some t4"
    and st': "total st' = t4"
    unfolding sector_step_def if_not_P [OF nh] bind_eq_Some_conv by force
  have q: "v = qty p f b" using v assms(2) by (simp add: qty_def num_def rd_def)
  show ?thesis
    using add_to_at [OF t1, of k] add_to_at [OF t2, of k] elec_waste_at [OF t3, of k]
      heat_at [OF t4, of k] True q
    by (cases "total st k") (simp_all add: st' contrib_def extras_def)
qed

lemma sector_loop_total:
  assumes "ofold (sector_step cfg p j f fo) bs st = Some st'" and "sectors p f = Some fo"
  shows "total st' k = map_option (\<lambda>v. v + (\<Sum>b\<leftarrow>filter (used cfg) bs. contrib cfg p j f k b)) (total st k)"
  using assms(1)
proof (induction bs arbitrary: st)
  case Nil
  then show ?case by (cases "total st k") auto
next
  case (Cons b bs)
  from Cons.prems obtain st1 where s1: "sector_step cfg p j f fo st b = Some st1"
    and s2: "ofold (sector_step cfg p j f fo) bs st1 = Some st'"
    by (auto split: option.splits)
  show ?case
    using Cons.IH [OF s2] sector_step_total [OF s1 assms(2), of k]
    by (cases "total st k") auto
qed

lemma fuel_step_total:
  assumes "fuel_step cfg p st (j, f) = Some st'" and "k \<noteq> ''fuel_height''"
  shows "total st' k = map_option (\<lambda>v. v + (if used cfg f then (\<Sum>b\<leftarrow>used_boxes cfg. contrib cfg p j f k b) else 0)) (total st k)"
proof (cases "used cfg f")
  case False
  with assms show ?thesis by (cases "total st k") (auto simp: fuel_step_def used_def)
next
  case True
  then have nh: "\<not> (\<not> hasHeatData cfg \<and> f = ''heat'')" by (auto simp: used_def)
  from assms(1) obtain fo st1 fh tf lab where fo: "sectors p f = Some fo"
    and st1: "ofold (sector_step cfg p j f fo) BOX_NAMES st = Some st1"
    and st': "st' = st1\<lparr>total := (total st1)(''fuel_height'' \<mapsto> fh + (tf * SCALE + LEFT_GAP)), label := lab\<rparr>"
    unfolding fuel_step_def Let_def fst_conv snd_conv if_not_P [OF nh] bind_eq_Some_conv by force
  show ?thesis
    using sector_loop_total [OF st1 fo, of k] True assms(2)
    by (simp add: st' used_boxes_def)
qed

lemma fuel_loop_total:
  assumes "ofold (fuel_step cfg p) jfs st = Some st'" and "k \<noteq> ''fuel_height''"
  shows "total st' k = map_option (\<lambda>v. v + (\<Sum>jf\<leftarrow>jfs. fuel_contrib cfg p k jf)) (total st k)"
  using assms(1)
proof (induction jfs arbitrary: st)
  case Nil
  then show ?case by (cases "total st k") auto
next
  case (Cons jf jfs)
  from Cons.prems obtain st1 where s1: "fuel_step cfg p st (fst jf, snd jf) = Some st1"
    and s2: "ofold (fuel_step cfg p) jfs st1 = Some st'"
    by (auto split: option.splits)
  show ?case
    using Cons.IH [OF s2] fuel_step_total [OF s1 assms(2)]
    by (cases "total st k") (auto simp: fuel_contrib_def)
qed

lemma year_stepE:
  assumes "year_step cfg p = Some (t, fl, lb, ys)"
  obtains st w where "ofold (fuel_step cfg p) fuel_indices (initial_loop cfg p) = Some st"
    and "year_waste cfg p = Some w" and "nums t = (total st)(''waste'' \<mapsto> w)"
    and "primary_sum (nums t) = Some ys"
  using assms unfolding year_step_def bind_eq_Some_conv by force

lemma year_step_total:
  assumes "year_step cfg p = Some (t, fl, lb, ys)" and "k \<noteq> ''fuel_height''" and "k \<noteq> ''waste''"
  shows "nums t k = map_option (\<lambda>v. v + (\<Sum>jf\<leftarrow>fuel_indices. fuel_contrib cfg p k jf))
                      (total (initial_loop cfg p) k)"
proof -
  from assms(1) obtain st w where st: "ofold (fuel_step cfg p) fuel_indices (initial_loop cfg p) = Some st"
    and w: "year_waste cfg p = Some w"
    and t: "nums t = (total st)(''waste'' \<mapsto> w)"
    and ps: "primary_sum (nums t) = Some ys"
    by (rule year_stepE)
  show ?thesis using fuel_loop_total [OF st assms(2)] assms(3) by (simp add: t)
qed

lemma year_waste_closed:
  assumes "year_waste cfg p = Some w"
  shows "w = qty p ''waste'' ''res'' + qty p ''waste'' ''ag'' + qty p ''waste'' ''indus''
            + qty p ''waste'' ''trans'' + (if hasHeatData cfg then qty p ''waste'' ''heat'' else 0)"
  using assms
  by (cases "hasHeatData cfg") (auto simp: year_waste_def qty_def num_def bind_eq_Some_conv)

lemma year_step_waste:
  assumes "year_step cfg p = Some (t, fl, lb, ys)"
  shows "nums t ''waste'' = Some (qty p ''waste'' ''res'' + qty p ''waste'' ''ag'' + qty p ''waste'' ''indus''
            + qty p ''waste'' ''trans'' + (if hasHeatData cfg then qty p ''waste'' ''heat'' else 0))"
proof -
  from assms(1) obtain st w where st: "ofold (fuel_step cfg p) fuel_indices (initial_loop cfg p) = Some st"
    and w: "year_waste cfg p = Some w"
    and t: "nums t = (total st)(''waste'' \<mapsto> w)"
    and ps: "primary_sum (nums t) = Some ys"
    by (rule year_stepE)
  show ?thesis using year_waste_closed [OF w] by (simp add: t)
qed

lemma used_boxes_mem: "k \<in> set (used_boxes cfg) \<longleftrightarrow> k \<in> set BOX_NAMES \<and> used cfg k"
  by (simp add: used_boxes_def)

lemma used_boxes_eq:
  "used_boxes cfg = [''elec'', ''res'', ''ag'', ''indus'', ''trans''] @ (if hasHeatData cfg then [''heat''] else [])"
  by (simp add: used_boxes_def BOX_NAMES_def used_def)

lemma fuel_indices_eq:
  "fuel_indices = [(2, ''solar''), (3, ''nuclear''), (4, ''hydro''), (5, ''wind''), (6, ''geo''),
                   (7, ''gas''), (8, ''coal''), (9, ''bio''), (10, ''petro'')]"
  by (simp add: fuel_indices_def FUEL_NAMES_def upt_rec)

lemma sum_if_key:
  "distinct bs \<Longrightarrow> (\<Sum>b\<leftarrow>bs. if k = b then g b else 0) = (if k \<in> set bs then g k else (0::real))"
  by (induction bs) auto

lemma sum_if_const: "(\<Sum>b\<leftarrow>bs. if c then g b else 0) = (if c then (\<Sum>b\<leftarrow>bs. g b) else (0::real))"
  by (induction bs) auto

lemma contrib_sum:
  assumes "distinct bs"
  shows "(\<Sum>b\<leftarrow>bs. contrib cfg p j f k b)
         = (if k \<in> set bs then qty p f k + extras cfg p j k else 0)
           + (if k = f then (\<Sum>b\<leftarrow>bs. qty p f b) else 0)"
  unfolding contrib_def sum_list_addf sum_if_key [OF assms] sum_if_const ..

lemma distinct_used_boxes: "distinct (used_boxes cfg)"
  by (simp add: used_boxes_eq)

lemma extras_not2: "j \<noteq> 2 \<Longrightarrow> extras cfg p j b = 0"
  by (simp add: extras_def)

lemma box_total_closed:
  assumes "year_step cfg p = Some (t, fl, lb, ys)" and "k \<in> set (used_boxes cfg)"
  shows "nums t k = Some ((\<Sum>f\<leftarrow>map snd fuel_indices. qty p f k) + extras cfg p 2 k)"
proof -
  have kb: "k \<in> set BOX_NAMES" and ku: "used cfg k"
    using assms(2) by (simp_all add: used_boxes_mem)
  have k: "k \<noteq> ''fuel_height''" "k \<noteq> ''waste''"
    using kb by (auto simp: BOX_NAMES_def)
  have nf: "k \<noteq> ''solar''" "k \<noteq> ''nuclear''" "k \<noteq> ''hydro''" "k \<noteq> ''wind''" "k \<noteq> ''geo''"
    "k \<noteq> ''gas''" "k \<noteq> ''coal''" "k \<noteq> ''bio''" "k \<noteq> ''petro''"
    using kb by (auto simp: BOX_NAMES_def)
  have init: "total (initial_loop cfg p) k = Some 0"
    using kb ku by (auto simp: initial_loop_def zero_keys_def BOX_NAMES_def used_def)
  have "(\<Sum>jf\<leftarrow>fuel_indices. fuel_contrib cfg p k jf)
        = (\<Sum>f\<leftarrow>map snd fuel_indices. qty p f k) + extras cfg p 2 k"
    by (simp add: fuel_indices_eq fuel_contrib_def contrib_sum [OF distinct_used_boxes] assms(2)
        nf extras_not2 used_def)
  then show ?thesis
    unfolding year_step_total [OF assms(1) k] init by simp
qed

lemma fuel_total_closed:
  assumes "year_step cfg p = Some (t, fl, lb, ys)" and "f \<in> set (map snd fuel_indices)"
  shows "nums t f = Some (\<Sum>b\<leftarrow>used_boxes cfg. qty p f b)"
proof -
  have k: "f \<noteq> ''fuel_height''" "f \<noteq> ''waste''"
    using assms(2) by (auto simp: fuel_indices_eq)
  have nb: "f \<notin> set (used_boxes cfg)"
    using assms(2) by (auto simp: fuel_indices_eq used_boxes_eq)
  have init: "total (initial_loop cfg p) f = Some 0"
    using assms(2) by (auto simp: initial_loop_def zero_keys_def fuel_indices_eq)
  have "(\<Sum>jf\<leftarrow>fuel_indices. fuel_contrib cfg p f jf) = (\<Sum>b\<leftarrow>used_boxes cfg. qty p f b)"
    using assms(2)
    by (auto simp add: fuel_indices_eq fuel_contrib_def contrib_sum [OF distinct_used_boxes] nb used_def)
  then show ?thesis
    unfolding year_step_total [OF assms(1) k] init by simp
qed

lemma push_loop:
  assumes "ofold (push_year cfg) ps sm0 = Some sm"
  shows "\<exists>ts. totals sm = totals sm0 @ ts
             \<and> list_all2 (\<lambda>p t. \<exists>fl lb ys. year_step cfg p = Some (t, fl, lb, ys)) ps ts"
  using assms
proof (induction ps arbitrary: sm0)
  case Nil
  then show ?case by simp
next
  case (Cons p ps)
  from Cons.prems obtain sm1 where s1: "push_year cfg sm0 p = Some sm1"
    and s2: "ofold (push_year cfg) ps sm1 = Some sm"
    by (auto split: option.splits)
  from s1 obtain t fl lb ys where y: "year_step cfg p = Some (t, fl, lb, ys)"
    and t1: "totals sm1 = totals sm0 @ [t]"
    by (auto simp: push_year_def split: option.splits prod.splits)
  from Cons.IH [OF s2] obtain ts where "totals sm = totals sm1 @ ts"
    and "list_all2 (\<lambda>p t. \<exists>fl lb ys. year_step cfg p = Some (t, fl, lb, ys)) ps ts"
    by blast
  with y t1 show ?case by (intro exI [of _ "t # ts"]) auto
qed

lemma buildSummaryE:
  assumes "buildSummary cfg ds = Some sm"
  obtains sm1 where "buildTotals cfg ds empty_summary = Some sm1"
    and "buildBoxTops (buildMaxes sm1) = Some sm"
  using assms unfolding buildSummary_def bind_eq_Some_conv by force

lemma buildBoxTops_totals: "buildBoxTops sm1 = Some sm \<Longrightarrow> totals sm = totals sm1 \<and> maxes sm = maxes sm1"
  unfolding buildBoxTops_def bind_eq_Some_conv by force

lemma buildSummary_years:
  assumes "buildSummary cfg ds = Some sm"
  shows "length (totals sm) = length (data ds)"
    and "i < length (data ds) \<Longrightarrow> \<exists>fl lb ys. year_step cfg (data ds ! i) = Some (totals sm ! i, fl, lb, ys)"
proof -
  from assms obtain sm1 where b: "buildTotals cfg ds empty_summary = Some sm1"
    and bt: "buildBoxTops (buildMaxes sm1) = Some sm"
    by (rule buildSummaryE)
  from push_loop [OF b [unfolded buildTotals_def]] obtain ts where
    ts: "totals sm1 = ts" and l: "list_all2 (\<lambda>p t. \<exists>fl lb ys. year_step cfg p = Some (t, fl, lb, ys)) (data ds) ts"
    by (auto simp: empty_summary_def)
  have eq: "totals sm = ts" using buildBoxTops_totals [OF bt] ts by (simp add: buildMaxes_def)
  show "length (totals sm) = length (data ds)" using l eq by (simp add: list_all2_lengthD)
  show "i < length (data ds) \<Longrightarrow> \<exists>fl lb ys. year_step cfg (data ds ! i) = Some (totals sm ! i, fl, lb, ys)"
    using l eq by (simp add: list_all2_conv_all_nth)
qed

subsection \<open>Validated data without heat always has a summary\<close>

lemma add_to_defined: "m a \<noteq> None \<Longrightarrow> \<exists>m'. add_to m a x = Some m'"
  by (auto simp: add_to_def)

lemma add_to_dom: "add_to m a x = Some m' \<Longrightarrow> (\<exists>y. m' k = Some y) = (\<exists>y. m k = Some y)"
  by (auto simp: add_to_Some split: if_splits)

lemma complete_pointD:
  assumes "complete_point cfg p" and "b \<in> set (used_boxes cfg)"
  shows "f \<in> set (map snd fuel_indices) \<Longrightarrow> \<exists>v. rd p f b = Some v"
    and "\<exists>v. rd p ''elec'' b = Some v" and "\<exists>v. rd p ''waste'' b = Some v"
    and "hasHeatData cfg \<Longrightarrow> \<exists>v. rd p ''heat'' b = Some v"
  using assms unfolding complete_point_def by auto

lemma sector_step_defined:
  assumes ok: "keys_ok cfg st" and cp: "complete_point cfg p"
    and f: "f \<in> set (map snd fuel_indices)" and fo: "sectors p f = Some fo"
    and b: "b \<in> set BOX_NAMES"
  shows "\<exists>st'. sector_step cfg p j f fo st b = Some st' \<and> keys_ok cfg st'"
proof (cases "used cfg b")
  case False
  with ok show ?thesis by (auto simp: sector_step_def used_def)
next
  case True
  then have nh: "\<not> (\<not> hasHeatData cfg \<and> b = ''heat'')" by (auto simp: used_def)
  have bu: "b \<in> set (used_boxes cfg)" using b True by (simp add: used_boxes_mem)
  from complete_pointD(1) [OF cp bu f] fo obtain v where v: "fo b = Some v"
    by (auto simp: rd_def)
  from ok bu have "flow st b \<noteq> None" by (simp add: keys_ok_def)
  then obtain fl1 where fl1: "(if v > 0 then add_to (flow st) b 1 else Some (flow st)) = Some fl1"
    using add_to_defined [of "flow st" b 1] by (cases "v > 0") auto
  have fl1d: "(\<exists>y. fl1 k = Some y) = (\<exists>y. flow st k = Some y)" for k
    using fl1 add_to_dom [of "flow st" b 1 fl1 k] by (cases "v > 0") auto
  from ok bu have "total st b \<noteq> None" by (simp add: keys_ok_def)
  then obtain t1 where t1: "add_to (total st) b v = Some t1" using add_to_defined by blast
  note d1 = add_to_dom [OF t1]
  from ok f have "total st f \<noteq> None" by (simp add: keys_ok_def)
  then have "t1 f \<noteq> None" by (simp add: d1)
  then obtain t2 where t2: "add_to t1 f v = Some t2" using add_to_defined by blast
  note d2 = add_to_dom [OF t2]
  have t2b: "t2 b \<noteq> None" using \<open>total st b \<noteq> None\<close> by (simp add: d1 d2)
  have "\<exists>t3. (if j = 2 \<and> b \<noteq> ''elec''
            then do { e \<leftarrow> rd p ''elec'' b; t \<leftarrow> add_to t2 b e; w \<leftarrow> rd p ''waste'' b; add_to t b w }
            else Some t2) = Some t3 \<and> (\<forall>k. (\<exists>y. t3 k = Some y) = (\<exists>y. t2 k = Some y))"
  proof (cases "j = 2 \<and> b \<noteq> ''elec''")
    case False
    then show ?thesis by auto
  next
    case c: True
    from complete_pointD(2,3) [OF cp bu] obtain e w
      where e: "rd p ''elec'' b = Some e" and w: "rd p ''waste'' b = Some w"
      by blast
    from t2b obtain t where t: "add_to t2 b e = Some t" using add_to_defined by blast
    then have "t b \<noteq> None" using t2b by (simp add: add_to_dom)
    then obtain t3 where t3: "add_to t b w = Some t3" using add_to_defined by blast
    show ?thesis using c e w t t3 add_to_dom [OF t] add_to_dom [OF t3] by auto
  qed
  then obtain t3 where t3: "(if j = 2 \<and> b \<noteq> ''elec''
            then do { e \<leftarrow> rd p ''elec'' b; t \<leftarrow> add_to t2 b e; w \<leftarrow> rd p ''waste'' b; add_to t b w }
            else Some t2) = Some t3" and d3: "\<And>k. (\<exists>y. t3 k = Some y) = (\<exists>y. t2 k = Some y)"
    by blast
  have "\<exists>t4. (if j = 2 \<and> b \<noteq> ''heat'' \<and> hasHeatData cfg
            then do { h \<leftarrow> rd p ''heat'' b; add_to t3 b h }
            else Some t3) = Some t4 \<and> (\<forall>k. (\<exists>y. t4 k = Some y) = (\<exists>y. t3 k = Some y))"
  proof (cases "j = 2 \<and> b \<noteq> ''heat'' \<and> hasHeatData cfg")
    case False
    then show ?thesis by auto
  next
    case c: True
    from complete_pointD(4) [OF cp bu] c obtain h where h: "rd p ''heat'' b = Some h"
      by blast
    from t2b have "t3 b \<noteq> None" by (simp add: d3)
    then obtain t4 where t4: "add_to t3 b h = Some t4" using add_to_defined by blast
    show ?thesis using c h t4 add_to_dom [OF t4] by auto
  qed
  then obtain t4 where t4: "(if j = 2 \<and> b \<noteq> ''heat'' \<and> hasHeatData cfg
            then do { h \<leftarrow> rd p ''heat'' b; add_to t3 b h }
            else Some t3) = Some t4" and d4: "\<And>k. (\<exists>y. t4 k = Some y) = (\<exists>y. t3 k = Some y)"
    by blast
  have "sector_step cfg p j f fo st b = Some (st\<lparr>total := t4, flow := fl1\<rparr>)"
    unfolding sector_step_def if_not_P [OF nh] by (simp add: v fl1 t1 t2 t3 t4)
  moreover have "keys_ok cfg (st\<lparr>total := t4, flow := fl1\<rparr>)"
    using ok by (simp add: keys_ok_def d1 d2 d3 d4 fl1d)
  ultimately show ?thesis by blast
qed

lemma sector_loop_defined:
  assumes cp: "complete_point cfg p"
    and f: "f \<in> set (map snd fuel_indices)" and fo: "sectors p f = Some fo"
  shows "keys_ok cfg st \<Longrightarrow> set bs \<subseteq> set BOX_NAMES
         \<Longrightarrow> \<exists>st'. ofold (sector_step cfg p j f fo) bs st = Some st' \<and> keys_ok cfg st'"
proof (induction bs arbitrary: st)
  case Nil
  then show ?case by simp
next
  case (Cons b bs)
  from Cons.prems have b: "b \<in> set BOX_NAMES" by simp
  from sector_step_defined [OF Cons.prems(1) cp f fo b] obtain st1
    where s1: "sector_step cfg p j f fo st b = Some st1" and k1: "keys_ok cfg st1" by blast
  from Cons.IH [OF k1] Cons.prems(2) s1 show ?case by simp
qed

lemma fuel_step_defined:
  assumes ok: "keys_ok cfg st" and cp: "complete_point cfg p" and f: "f \<in> set (map snd fuel_indices)"
  shows "\<exists>st'. fuel_step cfg p st (j, f) = Some st' \<and> keys_ok cfg st'"
proof -
  have nh: "\<not> (\<not> hasHeatData cfg \<and> f = ''heat'')" using f by (auto simp: fuel_indices_eq)
  have "''elec'' \<in> set (used_boxes cfg)" by (simp add: used_boxes_eq)
  from complete_pointD(1) [OF cp this f] obtain fo where fo: "sectors p f = Some fo"
    by (auto simp: rd_def split: option.splits)
  from sector_loop_defined [OF cp f fo ok subset_refl] obtain st1
    where s1: "ofold (sector_step cfg p j f fo) BOX_NAMES st = Some st1" and k1: "keys_ok cfg st1"
    by blast
  from k1 obtain fh where fh: "total st1 ''fuel_height'' = Some fh" by (auto simp: keys_ok_def)
  from k1 obtain te where te: "total st1 ''elec'' = Some te" by (auto simp: keys_ok_def used_boxes_eq)
  from k1 f obtain tf where tf: "total st1 f = Some tf" by (auto simp: keys_ok_def)
  have th: "hasHeatData cfg \<Longrightarrow> \<exists>th. total st1 ''heat'' = Some th"
    using k1 by (auto simp: keys_ok_def used_boxes_eq)
  have "\<exists>st'. fuel_step cfg p st (j, f) = Some st' \<and> total st' = (total st1)(''fuel_height'' \<mapsto> fh + (tf * SCALE + LEFT_GAP))
        \<and> flow st' = flow st1"
    unfolding fuel_step_def Let_def fst_conv snd_conv if_not_P [OF nh]
    using th by (cases "hasHeatData cfg") (auto simp: fo s1 fh te tf)
  then obtain st' where "fuel_step cfg p st (j, f) = Some st'"
    and "total st' = (total st1)(''fuel_height'' \<mapsto> fh + (tf * SCALE + LEFT_GAP))"
    and "flow st' = flow st1" by blast
  moreover from this k1 have "keys_ok cfg st'" by (simp add: keys_ok_def)
  ultimately show ?thesis by blast
qed

lemma fuel_loop_defined:
  assumes cp: "complete_point cfg p"
  shows "keys_ok cfg st \<Longrightarrow> set jfs \<subseteq> set fuel_indices
         \<Longrightarrow> \<exists>st'. ofold (fuel_step cfg p) jfs st = Some st' \<and> keys_ok cfg st'"
proof (induction jfs arbitrary: st)
  case Nil
  then show ?case by simp
next
  case (Cons jf jfs)
  from Cons.prems have f: "snd jf \<in> set (map snd fuel_indices)" by auto
  from fuel_step_defined [OF Cons.prems(1) cp f, of "fst jf"] obtain st1
    where s1: "fuel_step cfg p st jf = Some st1" and k1: "keys_ok cfg st1" by auto
  from Cons.IH [OF k1] Cons.prems(2) s1 show ?case by simp
qed

lemma keys_ok_initial: "keys_ok cfg (initial_loop cfg p)"
  by (simp add: keys_ok_def initial_loop_def zero_keys_def used_boxes_eq fuel_indices_eq)

lemma year_step_defined:
  assumes cp: "complete_point cfg p"
  shows "\<exists>r. year_step cfg p = Some r"
proof -
  from fuel_loop_defined [OF cp keys_ok_initial subset_refl] obtain st
    where st: "ofold (fuel_step cfg p) fuel_indices (initial_loop cfg p) = Some st"
      and k: "keys_ok cfg st" by blast
  have wb: "\<exists>v. rd p ''waste'' b = Some v" if "b \<in> set (used_boxes cfg)" for b
    using complete_pointD(3) [OF cp that] .
  from wb [of "''res''"] wb [of "''ag''"] wb [of "''indus''"] wb [of "''trans''"] wb [of "''heat''"]
  have "\<exists>w. year_waste cfg p = Some w"
    by (cases "hasHeatData cfg") (auto simp: year_waste_def used_boxes_eq)
  then obtain w where w: "year_waste cfg p = Some w" by blast
  have "\<exists>ys. primary_sum ((total st)(''waste'' \<mapsto> w)) = Some ys"
    using k by (fastforce simp: primary_sum_def keys_ok_def fuel_indices_eq bind_eq_Some_conv)
  then show ?thesis by (auto simp: year_step_def st w)
qed

lemma check_breakdown_ok:
  "check_breakdown sector sd bs = Inr u \<Longrightarrow> b \<in> set bs \<Longrightarrow> \<exists>v. sd b = Some v"
  by (induction bs) (auto split: if_splits)

lemma check_sectors_ok:
  "check_sectors p ss = Inr u \<Longrightarrow> s \<in> set ss \<Longrightarrow> b \<in> set requiredBreakdown
   \<Longrightarrow> \<exists>v. rd p s b = Some v"
proof (induction ss)
  case Nil
  then show ?case by simp
next
  case (Cons x ss)
  from Cons.prems(1) obtain sd u' where sd: "sectors p x = Some sd"
    and cb: "check_breakdown x sd (requiredBreakdown @ (if sectors p ''heat'' \<noteq> None then [''heat''] else [])) = Inr u'"
    and rest: "check_sectors p ss = Inr u"
    by (auto split: option.splits sum.splits)
  show ?case
  proof (cases "s = x")
    case True
    from check_breakdown_ok [OF cb, of b] Cons.prems(3) sd True show ?thesis
      by (auto simp: rd_def)
  next
    case False
    with Cons.IH [OF rest] Cons.prems show ?thesis by auto
  qed
qed

lemma check_points_ok:
  "check_points ps h = Inr h' \<Longrightarrow>
     (\<forall>p\<in>set ps. year p \<noteq> 0 \<and> check_sectors p requiredSectors = Inr ())
     \<and> (h' \<longleftrightarrow> h \<or> (\<exists>p\<in>set ps. sectors p ''heat'' \<noteq> None))"
  by (induction ps arbitrary: h) (auto split: if_splits sum.splits)

lemma validateData_ok:
  assumes "validateData cfg dat = Inr cfg'"
  shows "dat \<noteq> []"
    and "p \<in> set dat \<Longrightarrow> year p \<noteq> 0"
    and "p \<in> set dat \<Longrightarrow> s \<in> set requiredSectors \<Longrightarrow> b \<in> set requiredBreakdown \<Longrightarrow> \<exists>v. rd p s b = Some v"
    and "hasHeatData cfg' \<longleftrightarrow> hasHeatData cfg \<or> (\<exists>p\<in>set dat. sectors p ''heat'' \<noteq> None)"
proof -
  from assms obtain h where ne: "dat \<noteq> []" and cp: "check_points dat False = Inr h"
    and c: "cfg' = (if h then cfg\<lparr>hasHeatData := True\<rparr> else cfg)"
    by (auto simp: validateData_def split: if_splits sum.splits)
  note ok = check_points_ok [OF cp]
  show "dat \<noteq> []" by (rule ne)
  show "p \<in> set dat \<Longrightarrow> year p \<noteq> 0" using ok by blast
  show "p \<in> set dat \<Longrightarrow> s \<in> set requiredSectors \<Longrightarrow> b \<in> set requiredBreakdown \<Longrightarrow> \<exists>v. rd p s b = Some v"
    using ok check_sectors_ok by blast
  show "hasHeatData cfg' \<longleftrightarrow> hasHeatData cfg \<or> (\<exists>p\<in>set dat. sectors p ''heat'' \<noteq> None)"
    using ok c by auto
qed

lemma validated_complete:
  assumes v: "validateData cfg dat = Inr cfg'" and nh: "\<not> hasHeatData cfg'" and p: "p \<in> set dat"
  shows "complete_point cfg' p"
  unfolding complete_point_def
proof (intro ballI)
  fix f b
  assume f: "f \<in> set ([''elec'', ''waste''] @ (if hasHeatData cfg' then [''heat''] else []) @ map snd fuel_indices)"
    and b: "b \<in> set (used_boxes cfg')"
  from f nh have "f \<in> set requiredSectors" by (auto simp: requiredSectors_def fuel_indices_eq)
  moreover from b nh have "b \<in> set requiredBreakdown" by (auto simp: used_boxes_eq requiredBreakdown_def)
  ultimately show "rd p f b \<noteq> None" using validateData_ok(3) [OF v p] by auto
qed

lemma push_loop_defined:
  "\<forall>p\<in>set ps. \<exists>r. year_step cfg p = Some r \<Longrightarrow> \<exists>sm. ofold (push_year cfg) ps sm0 = Some sm"
proof (induction ps arbitrary: sm0)
  case Nil
  then show ?case by simp
next
  case (Cons p ps)
  then obtain r where "year_step cfg p = Some r" by auto
  then obtain sm1 where "push_year cfg sm0 p = Some sm1"
    by (cases r) (auto simp: push_year_def)
  with Cons show ?case by auto
qed

lemma those_map_Some: "those (map Some ws) = Some ws"
  by (induction ws) auto




lemma Math_max_defined:
  assumes "vs \<noteq> []" and "\<forall>v\<in>set vs. v \<noteq> None"
  shows "\<exists>m. Math_max vs = Some m"
proof -
  from assms(2) have "vs = map Some (map the vs)" by (induction vs) auto
  then obtain ws where ws: "vs = map Some ws" by blast
  with assms(1) obtain w ws' where "ws = w # ws'" by (cases ws) auto
  with ws have "those vs = Some (w # ws')" using those_map_Some [of "w # ws'"] by simp
  then show ?thesis by (simp add: Math_max_def)
qed

lemma buildBoxTops_defined:
  assumes "\<exists>m. maxes sm ''res'' = Some m" "\<exists>m. maxes sm ''ag'' = Some m" "\<exists>m. maxes sm ''indus'' = Some m"
  shows "\<exists>sm'. buildBoxTops sm = Some sm'"
  using assms by (auto simp: buildBoxTops_def)

lemma buildSummary_defined:
  assumes nd: "new_DataService cfg energyData = Inr (cfg', ds)" and nh: "\<not> hasHeatData cfg'"
  shows "\<exists>sm. buildSummary cfg' ds = Some sm"
proof -
  from nd have v: "validateData cfg energyData = Inr cfg'" and d: "data ds = sort_key year energyData"
    by (auto simp: new_DataService_def Let_def split: sum.splits)
  have ne: "data ds \<noteq> []" using validateData_ok(1) [OF v] d by (cases energyData) auto
  have cp: "complete_point cfg' p" if "p \<in> set (data ds)" for p
    using validated_complete [OF v nh] that d by simp
  then have "\<forall>p\<in>set (data ds). \<exists>r. year_step cfg' p = Some r"
    using year_step_defined by blast
  from push_loop_defined [OF this] obtain sm1 where b: "buildTotals cfg' ds empty_summary = Some sm1"
    by (auto simp: buildTotals_def)
  from push_loop [OF b [unfolded buildTotals_def]] obtain ts where
    ts: "totals sm1 = ts" and l: "list_all2 (\<lambda>p t. \<exists>fl lb ys. year_step cfg' p = Some (t, fl, lb, ys)) (data ds) ts"
    by (auto simp: empty_summary_def)
  from l ne have tne: "ts \<noteq> []" by (auto simp: list_all2_Cons1 neq_Nil_conv)
  have def: "\<forall>v\<in>set (map (\<lambda>t. nums t k) ts). v \<noteq> None" if k: "k \<in> set (used_boxes cfg')" for k
  proof
    fix v assume "v \<in> set (map (\<lambda>t. nums t k) ts)"
    then obtain t where t: "t \<in> set ts" and v: "v = nums t k" by auto
    from t l obtain p fl lb ys where "year_step cfg' p = Some (t, fl, lb, ys)"
      by (auto simp: in_set_conv_nth list_all2_conv_all_nth)
    from box_total_closed [OF this k] v show "v \<noteq> None" by simp
  qed
  have mx: "\<exists>m. maxes (buildMaxes sm1) k = Some m" if k: "k \<in> set [''res'', ''ag'', ''indus'']" for k
  proof -
    from k have ku: "k \<in> set (used_boxes cfg')" and kb: "k \<in> set BOX_NAMES"
      by (auto simp: used_boxes_eq BOX_NAMES_def)
    from Math_max_defined [OF _ def [OF ku]] tne kb show ?thesis
      by (simp add: buildMaxes_def ts)
  qed
  from buildBoxTops_defined [OF mx mx mx] obtain sm where "buildBoxTops (buildMaxes sm1) = Some sm"
    by auto
  with b show ?thesis by (simp add: buildSummary_def)
qed

subsection \<open>Fuel totals\<close>

lemma new_one: "new_DataService cfg0 [flat_point 2000 v] = Inr (cfg0, ds1 v)"
  by (simp add: new_DataService_def validateData_def check_points_flat Let_def ds1_def)

lemma cfg0_no_heat [simp]: "\<not> hasHeatData cfg0"
  by (simp add: cfg0_def)

lemma map_of_const: "map_of (map (\<lambda>k. (k, c)) ks) k = (if k \<in> set ks then Some c else None)"
  by (induction ks) auto

lemma rd_flat:
  "rd (flat_point y v) f b = (if f \<in> set requiredSectors \<and> b \<in> set requiredBreakdown then Some v else None)"
  by (simp add: rd_def flat_point_def flat_breakdown_def map_of_const)

lemma qty_flat:
  "qty (flat_point y v) f b = (if f \<in> set requiredSectors \<and> b \<in> set requiredBreakdown then v else 0)"
  by (simp add: qty_def num_def rd_flat)

lemma sector_loop_reads:
  assumes "ofold (sector_step cfg p j f fo) bs st = Some st'"
  shows "\<forall>b\<in>set bs. used cfg b \<longrightarrow> fo b \<noteq> None"
  using assms
proof (induction bs arbitrary: st)
  case Nil
  then show ?case by simp
next
  case (Cons b bs)
  from Cons.prems obtain st1 where s1: "sector_step cfg p j f fo st b = Some st1"
    and s2: "ofold (sector_step cfg p j f fo) bs st1 = Some st'"
    by (auto split: option.splits)
  have "used cfg b \<longrightarrow> fo b \<noteq> None"
    using s1 by (auto simp: sector_step_def used_def bind_eq_Some_conv)
  with Cons.IH [OF s2] show ?case by simp
qed

lemma fuel_step_reads:
  assumes "fuel_step cfg p st (j, f) = Some st'" and "used cfg f" and "b \<in> set (used_boxes cfg)"
  shows "rd p f b \<noteq> None"
proof -
  from assms(2) have nh: "\<not> (\<not> hasHeatData cfg \<and> f = ''heat'')" by (auto simp: used_def)
  from assms(1) obtain fo st1 where fo: "sectors p f = Some fo"
    and st1: "ofold (sector_step cfg p j f fo) BOX_NAMES st = Some st1"
    unfolding fuel_step_def Let_def fst_conv snd_conv if_not_P [OF nh] bind_eq_Some_conv by force
  from sector_loop_reads [OF st1] assms(3) fo show ?thesis
    by (auto simp: used_boxes_mem rd_def)
qed

lemma fuel_loop_reads:
  assumes "ofold (fuel_step cfg p) jfs st = Some st'"
  shows "\<forall>jf\<in>set jfs. used cfg (snd jf) \<longrightarrow> (\<forall>b\<in>set (used_boxes cfg). rd p (snd jf) b \<noteq> None)"
  using assms
proof (induction jfs arbitrary: st)
  case Nil
  then show ?case by simp
next
  case (Cons jf jfs)
  from Cons.prems obtain st1 where s1: "fuel_step cfg p st (fst jf, snd jf) = Some st1"
    and s2: "ofold (fuel_step cfg p) jfs st1 = Some st'"
    by (auto split: option.splits)
  from fuel_step_reads [OF s1] Cons.IH [OF s2] show ?case by auto
qed

lemma year_step_reads:
  assumes "year_step cfg p = Some (t, fl, lb, ys)" and "f \<in> set (map snd fuel_indices)"
    and "b \<in> set (used_boxes cfg)"
  shows "rd p f b \<noteq> None"
proof -
  from assms(1) obtain st w where st: "ofold (fuel_step cfg p) fuel_indices (initial_loop cfg p) = Some st"
    and w: "year_waste cfg p = Some w"
    and t: "nums t = (total st)(''waste'' \<mapsto> w)"
    and ps: "primary_sum (nums t) = Some ys"
    by (rule year_stepE)
  have "used cfg f" using assms(2) by (auto simp: fuel_indices_eq used_def)
  with fuel_loop_reads [OF st] assms(2,3) show ?thesis by auto
qed

text \<open>
  C2, as the code has it. In the YearTotals of every year, the total of each fuel of the
  middle loop (solar, nuclear, hydro, wind, geo and also gas, coal, bio, petro) is the sum
  of that fuel's quantities over all sectors the loop visits: elec, res, ag, indus, trans,
  and heat when the dataset has heat data. The fossil fuels are not summed over the
  end-use sectors only. Every quantity summed is present in the data point.
\<close>

theorem fuel_total_all_boxes:
  assumes "buildSummary cfg ds = Some sm" and "i < length (data ds)"
    and "f \<in> set [''solar'', ''nuclear'', ''hydro'', ''wind'', ''geo'', ''gas'', ''coal'', ''bio'', ''petro'']"
  shows "nums (totals sm ! i) f
           = Some (qty (data ds ! i) f ''elec'' + qty (data ds ! i) f ''res'' + qty (data ds ! i) f ''ag''
                   + qty (data ds ! i) f ''indus'' + qty (data ds ! i) f ''trans''
                   + (if hasHeatData cfg then qty (data ds ! i) f ''heat'' else 0))
         \<and> (\<forall>b\<in>set (used_boxes cfg). rd (data ds ! i) f b \<noteq> None)"
proof -
  from buildSummary_years(2) [OF assms(1,2)] obtain fl lb ys
    where y: "year_step cfg (data ds ! i) = Some (totals sm ! i, fl, lb, ys)" by blast
  have f: "f \<in> set (map snd fuel_indices)" using assms(3) by (simp add: fuel_indices_eq)
  show ?thesis
    using fuel_total_closed [OF y f] year_step_reads [OF y f]
    by (simp add: used_boxes_eq)
qed

theorem fuel_total_all_boxes_witness:
  "buildSummary cfg0 (ds1 1) \<noteq> None
   \<and> nums (totals (the (buildSummary cfg0 (ds1 1))) ! 0) ''gas'' = Some 5
   \<and> rd (flat_point 2000 1) ''gas'' ''elec'' = Some 1"
proof -
  from buildSummary_defined [OF new_one cfg0_no_heat] obtain sm
    where sm: "buildSummary cfg0 (ds1 1) = Some sm" by blast
  have i: "0 < length (data (ds1 1))" by (simp add: ds1_def)
  have f: "''gas'' \<in> set [''solar'', ''nuclear'', ''hydro'', ''wind'', ''geo'', ''gas'', ''coal'', ''bio'', ''petro'']"
    by simp
  have d: "data (ds1 1) ! 0 = flat_point 2000 1" by (simp add: ds1_def)
  have r: "rd (flat_point 2000 1) ''gas'' ''elec'' = Some 1"
    by (simp add: rd_flat requiredSectors_def requiredBreakdown_def)
  from fuel_total_all_boxes [OF sm i f] show ?thesis
    by (simp add: sm d r qty_flat requiredSectors_def requiredBreakdown_def)
qed

text \<open>
  The claim C2 at a validated one-year dataset whose every quantity is 1: the gas total
  is 5, the sum over res, ag, indus and trans is 4.
\<close>

theorem gas_total_includes_generation:
  "validateData cfg0 [flat_point 2000 1] = Inr cfg0
   \<and> buildSummary cfg0 (ds1 1) \<noteq> None
   \<and> nums (totals (the (buildSummary cfg0 (ds1 1))) ! 0) ''gas'' = Some 5
   \<and> qty (flat_point 2000 1) ''gas'' ''res'' + qty (flat_point 2000 1) ''gas'' ''ag''
       + qty (flat_point 2000 1) ''gas'' ''indus'' + qty (flat_point 2000 1) ''gas'' ''trans'' = 4"
proof -
  from buildSummary_defined [OF new_one cfg0_no_heat] obtain sm
    where sm: "buildSummary cfg0 (ds1 1) = Some sm" by blast
  from buildSummary_years(2) [OF sm, of 0] obtain fl lb ys
    where y: "year_step cfg0 (flat_point 2000 1) = Some (totals sm ! 0, fl, lb, ys)"
    by (auto simp: ds1_def)
  have f: "''gas'' \<in> set (map snd fuel_indices)" by (simp add: fuel_indices_eq)
  have v: "validateData cfg0 [flat_point 2000 1] = Inr cfg0"
    by (simp add: validateData_def check_points_flat)
  from fuel_total_closed [OF y f] v show ?thesis
    by (simp add: sm used_boxes_eq qty_flat requiredSectors_def requiredBreakdown_def)
qed

subsection \<open>Conservation\<close>

lemma extras2_closed:
  "extras cfg p 2 k = (if k \<noteq> ''elec'' then qty p ''elec'' k + qty p ''waste'' k else 0)
                      + (if k \<noteq> ''heat'' \<and> hasHeatData cfg then qty p ''heat'' k else 0)"
  by (simp add: extras_def)

lemma conservation_aux:
  assumes "buildSummary cfg ds = Some sm" and "i < length (data ds)"
  shows "(let t = (\<lambda>k. num (nums (totals sm ! i) k)); q = qty (data ds ! i); h = hasHeatData cfg in
          t ''res'' + t ''ag'' + t ''indus'' + t ''trans'' + (if h then t ''heat'' else 0)
          = (t ''solar'' + t ''nuclear'' + t ''hydro'' + t ''wind'' + t ''geo'' + t ''gas'' + t ''coal''
               + t ''bio'' + t ''petro'')
            - (q ''solar'' ''elec'' + q ''nuclear'' ''elec'' + q ''hydro'' ''elec'' + q ''wind'' ''elec''
               + q ''geo'' ''elec'' + q ''gas'' ''elec'' + q ''coal'' ''elec'' + q ''bio'' ''elec''
               + q ''petro'' ''elec'')
            + (q ''elec'' ''res'' + q ''elec'' ''ag'' + q ''elec'' ''indus'' + q ''elec'' ''trans''
               + (if h then q ''elec'' ''heat'' else 0))
            + t ''waste''
            + (if h then q ''heat'' ''res'' + q ''heat'' ''ag'' + q ''heat'' ''indus'' + q ''heat'' ''trans''
               else 0))"
proof -
  from buildSummary_years(2) [OF assms(1,2)] obtain fl lb ys
    where y: "year_step cfg (data ds ! i) = Some (totals sm ! i, fl, lb, ys)" by blast
  have b: "k \<in> set (used_boxes cfg) \<Longrightarrow>
      num (nums (totals sm ! i) k) = (\<Sum>f\<leftarrow>map snd fuel_indices. qty (data ds ! i) f k) + extras cfg (data ds ! i) 2 k" for k
    using box_total_closed [OF y] by (simp add: num_def)
  have f: "f \<in> set (map snd fuel_indices) \<Longrightarrow>
      num (nums (totals sm ! i) f) = (\<Sum>b\<leftarrow>used_boxes cfg. qty (data ds ! i) f b)" for f
    using fuel_total_closed [OF y] by (simp add: num_def)
  have w: "num (nums (totals sm ! i) ''waste'') =
      qty (data ds ! i) ''waste'' ''res'' + qty (data ds ! i) ''waste'' ''ag'' + qty (data ds ! i) ''waste'' ''indus''
            + qty (data ds ! i) ''waste'' ''trans'' + (if hasHeatData cfg then qty (data ds ! i) ''waste'' ''heat'' else 0)"
    using year_step_waste [OF y] by (simp add: num_def)
  show ?thesis
  proof (cases "hasHeatData cfg")
    case True
    then show ?thesis
      unfolding Let_def
      by (simp add: b f w used_boxes_eq fuel_indices_eq extras2_closed)
  next
    case False
    then show ?thesis
      unfolding Let_def
      by (simp add: b f w used_boxes_eq fuel_indices_eq extras2_closed)
  qed
qed

subsection \<open>Box tops\<close>

lemma buildBoxTopsE:
  assumes "buildBoxTops sm1 = Some sm"
  obtains mres mag mindus where "maxes sm1 ''res'' = Some mres" and "maxes sm1 ''ag'' = Some mag"
    and "maxes sm1 ''indus'' = Some mindus"
    and "sm = sm1\<lparr>boxTops := map_of [(''res'', ELEC_BOX_Y + 50), (''heat'', HEAT_BOX_Y + 50),
            (''ag'', ELEC_BOX_Y + 50 + mres * SCALE + RIGHT_GAP),
            (''indus'', ELEC_BOX_Y + 50 + mres * SCALE + RIGHT_GAP + mag * SCALE + RIGHT_GAP),
            (''trans'', ELEC_BOX_Y + 50 + mres * SCALE + RIGHT_GAP + mag * SCALE + RIGHT_GAP
                         + mindus * SCALE + RIGHT_GAP)]\<rparr>"
  using assms unfolding buildBoxTops_def bind_eq_Some_conv by force

lemma boxTops_closed:
  assumes "buildSummary cfg ds = Some sm"
  obtains mres mag mindus where
    "maxes sm ''res'' = Some mres" and "maxes sm ''ag'' = Some mag" and "maxes sm ''indus'' = Some mindus"
    and "boxTops sm ''res'' = Some (ELEC_BOX_Y + 50)"
    and "boxTops sm ''ag'' = Some (ELEC_BOX_Y + 50 + mres * SCALE + RIGHT_GAP)"
    and "boxTops sm ''indus'' = Some (ELEC_BOX_Y + 50 + mres * SCALE + RIGHT_GAP + mag * SCALE + RIGHT_GAP)"
    and "boxTops sm ''trans'' = Some (ELEC_BOX_Y + 50 + mres * SCALE + RIGHT_GAP + mag * SCALE + RIGHT_GAP
                         + mindus * SCALE + RIGHT_GAP)"
proof -
  from assms obtain sm1 where b: "buildTotals cfg ds empty_summary = Some sm1"
    and bt: "buildBoxTops (buildMaxes sm1) = Some sm"
    by (rule buildSummaryE)
  from bt obtain mres mag mindus where m: "maxes (buildMaxes sm1) ''res'' = Some mres"
    "maxes (buildMaxes sm1) ''ag'' = Some mag" "maxes (buildMaxes sm1) ''indus'' = Some mindus"
    and sm: "sm = (buildMaxes sm1)\<lparr>boxTops := map_of [(''res'', ELEC_BOX_Y + 50), (''heat'', HEAT_BOX_Y + 50),
            (''ag'', ELEC_BOX_Y + 50 + mres * SCALE + RIGHT_GAP),
            (''indus'', ELEC_BOX_Y + 50 + mres * SCALE + RIGHT_GAP + mag * SCALE + RIGHT_GAP),
            (''trans'', ELEC_BOX_Y + 50 + mres * SCALE + RIGHT_GAP + mag * SCALE + RIGHT_GAP
                         + mindus * SCALE + RIGHT_GAP)]\<rparr>"
    by (rule buildBoxTopsE)
  show ?thesis
  proof (rule that [of mres mag mindus])
    show "maxes sm ''res'' = Some mres" "maxes sm ''ag'' = Some mag" "maxes sm ''indus'' = Some mindus"
      using m by (simp_all add: sm)
    show "boxTops sm ''res'' = Some (ELEC_BOX_Y + 50)"
      "boxTops sm ''ag'' = Some (ELEC_BOX_Y + 50 + mres * SCALE + RIGHT_GAP)"
      "boxTops sm ''indus'' = Some (ELEC_BOX_Y + 50 + mres * SCALE + RIGHT_GAP + mag * SCALE + RIGHT_GAP)"
      "boxTops sm ''trans'' = Some (ELEC_BOX_Y + 50 + mres * SCALE + RIGHT_GAP + mag * SCALE + RIGHT_GAP
                         + mindus * SCALE + RIGHT_GAP)"
      by (simp_all add: sm)
  qed
qed






lemma one_year_summary:
  obtains sm t fl lb ys where "buildSummary cfg0 (ds1 v) = Some sm" and "totals sm = [t]"
    and "year_step cfg0 (flat_point 2000 v) = Some (t, fl, lb, ys)"
proof -
  from buildSummary_defined [OF new_one cfg0_no_heat] obtain sm
    where sm: "buildSummary cfg0 (ds1 v) = Some sm" by blast
  from buildSummary_years(1) [OF sm] obtain t where t: "totals sm = [t]"
    by (cases "totals sm") (auto simp: ds1_def)
  from buildSummary_years(2) [OF sm, of 0] t obtain fl lb ys
    where "year_step cfg0 (flat_point 2000 v) = Some (t, fl, lb, ys)"
    by (auto simp: ds1_def)
  with sm t show ?thesis by (rule that)
qed

lemma one_year_box_total:
  assumes "year_step cfg0 (flat_point 2000 v) = Some (t, fl, lb, ys)"
  shows "nums t ''res'' = Some (11 * v)" "nums t ''ag'' = Some (11 * v)"
    "nums t ''indus'' = Some (11 * v)" "nums t ''trans'' = Some (11 * v)" "nums t ''elec'' = Some (9 * v)"
  using box_total_closed [OF assms, of "''res''"] box_total_closed [OF assms, of "''ag''"]
    box_total_closed [OF assms, of "''indus''"] box_total_closed [OF assms, of "''trans''"]
    box_total_closed [OF assms, of "''elec''"]
  by (simp_all add: used_boxes_eq fuel_indices_eq extras2_closed qty_flat requiredSectors_def
        requiredBreakdown_def)



text \<open>
  C1, as the code has it. For every year, the sum of the sector totals of res, ag, indus
  and trans (and of heat, with heat data) equals the sum of the nine fuel totals, less the
  fuel that goes into electricity generation (the \<open>elec\<close> quantities of the nine
  fuels, which the fuel totals include), plus the electricity consumed by the sectors, plus
  the year's waste total (plus, with heat data, the heat consumed by the end-use sectors).
\<close>

theorem conservation_less_generation_input:
  assumes "buildSummary cfg ds = Some sm" and "i < length (data ds)"
  shows "tot sm i ''res'' + tot sm i ''ag'' + tot sm i ''indus'' + tot sm i ''trans''
           + (if hasHeatData cfg then tot sm i ''heat'' else 0)
         = (tot sm i ''solar'' + tot sm i ''nuclear'' + tot sm i ''hydro'' + tot sm i ''wind''
              + tot sm i ''geo'' + tot sm i ''gas'' + tot sm i ''coal'' + tot sm i ''bio'' + tot sm i ''petro'')
           - (qty (data ds ! i) ''solar'' ''elec'' + qty (data ds ! i) ''nuclear'' ''elec''
              + qty (data ds ! i) ''hydro'' ''elec'' + qty (data ds ! i) ''wind'' ''elec''
              + qty (data ds ! i) ''geo'' ''elec'' + qty (data ds ! i) ''gas'' ''elec''
              + qty (data ds ! i) ''coal'' ''elec'' + qty (data ds ! i) ''bio'' ''elec''
              + qty (data ds ! i) ''petro'' ''elec'')
           + (qty (data ds ! i) ''elec'' ''res'' + qty (data ds ! i) ''elec'' ''ag''
              + qty (data ds ! i) ''elec'' ''indus'' + qty (data ds ! i) ''elec'' ''trans''
              + (if hasHeatData cfg then qty (data ds ! i) ''elec'' ''heat'' else 0))
           + tot sm i ''waste''
           + (if hasHeatData cfg
              then qty (data ds ! i) ''heat'' ''res'' + qty (data ds ! i) ''heat'' ''ag''
                   + qty (data ds ! i) ''heat'' ''indus'' + qty (data ds ! i) ''heat'' ''trans''
              else 0)"
  using conservation_aux [OF assms] unfolding Let_def tot_def .

lemma one_year_fuel_total:
  assumes "year_step cfg0 (flat_point 2000 v) = Some (t, fl, lb, ys)"
    and "f \<in> set (map snd fuel_indices)"
  shows "nums t f = Some (5 * v)"
proof -
  from assms(2) have "f \<in> set requiredSectors" by (auto simp: fuel_indices_eq requiredSectors_def)
  with fuel_total_closed [OF assms] show ?thesis
    by (simp add: used_boxes_eq qty_flat requiredBreakdown_def)
qed

lemma one_year_waste:
  assumes "year_step cfg0 (flat_point 2000 v) = Some (t, fl, lb, ys)"
  shows "nums t ''waste'' = Some (4 * v)"
  using year_step_waste [OF assms]
  by (simp add: qty_flat requiredSectors_def requiredBreakdown_def)

lemma sm_one_tot:
  shows "buildSummary cfg0 (ds1 v) = Some (sm_one v)"
    and "k \<in> set [''res'', ''ag'', ''indus'', ''trans''] \<Longrightarrow> tot (sm_one v) 0 k = 11 * v"
    and "f \<in> set (map snd fuel_indices) \<Longrightarrow> tot (sm_one v) 0 f = 5 * v"
    and "tot (sm_one v) 0 ''waste'' = 4 * v"
proof -
  obtain sm t fl lb ys where sm: "buildSummary cfg0 (ds1 v) = Some sm" and t: "totals sm = [t]"
    and y: "year_step cfg0 (flat_point 2000 v) = Some (t, fl, lb, ys)"
    by (rule one_year_summary)
  have e: "sm_one v = sm" by (simp add: sm_one_def sm)
  show "buildSummary cfg0 (ds1 v) = Some (sm_one v)" by (simp add: e sm)
  show "k \<in> set [''res'', ''ag'', ''indus'', ''trans''] \<Longrightarrow> tot (sm_one v) 0 k = 11 * v"
    using one_year_box_total [OF y] by (auto simp: tot_def e t num_def)
  show "f \<in> set (map snd fuel_indices) \<Longrightarrow> tot (sm_one v) 0 f = 5 * v"
    using one_year_fuel_total [OF y] by (simp add: tot_def e t num_def)
  show "tot (sm_one v) 0 ''waste'' = 4 * v"
    using one_year_waste [OF y] by (simp add: tot_def e t num_def)
qed

text \<open>
  The claim C1 at a validated one-year dataset whose every quantity is 1: the four sector
  totals add up to 44, the fuel totals plus electricity consumption plus waste heat to 53.
\<close>

theorem conservation_fails_with_generation:
  "validateData cfg0 [flat_point 2000 1] = Inr cfg0
   \<and> buildSummary cfg0 (ds1 1) = Some (sm_one 1)
   \<and> tot (sm_one 1) 0 ''res'' + tot (sm_one 1) 0 ''ag'' + tot (sm_one 1) 0 ''indus''
       + tot (sm_one 1) 0 ''trans'' = 44
   \<and> (tot (sm_one 1) 0 ''solar'' + tot (sm_one 1) 0 ''nuclear'' + tot (sm_one 1) 0 ''hydro''
       + tot (sm_one 1) 0 ''wind'' + tot (sm_one 1) 0 ''geo'' + tot (sm_one 1) 0 ''gas''
       + tot (sm_one 1) 0 ''coal'' + tot (sm_one 1) 0 ''bio'' + tot (sm_one 1) 0 ''petro'')
      + (qty (flat_point 2000 1) ''elec'' ''res'' + qty (flat_point 2000 1) ''elec'' ''ag''
         + qty (flat_point 2000 1) ''elec'' ''indus'' + qty (flat_point 2000 1) ''elec'' ''trans'')
      + tot (sm_one 1) 0 ''waste'' = 53"
proof -
  have "validateData cfg0 [flat_point 2000 1] = Inr cfg0"
    by (simp add: validateData_def check_points_flat)
  then show ?thesis
    by (simp add: sm_one_tot fuel_indices_eq qty_flat requiredSectors_def requiredBreakdown_def)
qed

theorem conservation_less_generation_input_witness:
  "buildSummary cfg0 (ds1 1) = Some (sm_one 1) \<and> 0 < length (data (ds1 1))
   \<and> tot (sm_one 1) 0 ''res'' + tot (sm_one 1) 0 ''ag'' + tot (sm_one 1) 0 ''indus''
       + tot (sm_one 1) 0 ''trans''
     = (tot (sm_one 1) 0 ''solar'' + tot (sm_one 1) 0 ''nuclear'' + tot (sm_one 1) 0 ''hydro''
       + tot (sm_one 1) 0 ''wind'' + tot (sm_one 1) 0 ''geo'' + tot (sm_one 1) 0 ''gas''
       + tot (sm_one 1) 0 ''coal'' + tot (sm_one 1) 0 ''bio'' + tot (sm_one 1) 0 ''petro'')
       - 9 + 4 + tot (sm_one 1) 0 ''waste''"
proof -
  have i: "0 < length (data (ds1 1))" by (simp add: ds1_def)
  have d: "data (ds1 1) ! 0 = flat_point 2000 1" by (simp add: ds1_def)
  from conservation_less_generation_input [OF sm_one_tot(1) i] i sm_one_tot(1) [of 1]
  show ?thesis
    by (simp add: d qty_flat requiredSectors_def requiredBreakdown_def)
qed

subsection \<open>Width and value of a flow through the four passes\<close>





lemma ofold_invariant:
  assumes "ofold f xs s = Some s'" and "P s" and "\<And>s x s'. f s x = Some s' \<Longrightarrow> P s \<Longrightarrow> P s'"
  shows "P s'"
  using assms(1,2)
proof (induction xs arbitrary: s)
  case Nil
  then show ?case by simp
next
  case (Cons x xs)
  from Cons.prems(1) obtain s1 where "f s x = Some s1" and "ofold f xs s1 = Some s'"
    by (auto split: option.splits)
  with Cons.IH [of s1] assms(3) [of s x s1] Cons.prems(2) show ?case by blast
qed




lemma list_all_update:
  assumes "list_all P xs" and "k < length xs \<Longrightarrow> P v"
  shows "list_all P (xs[k := v])"
proof (cases "k < length xs")
  case True
  with assms show ?thesis
    by (auto simp: list_all_iff dest!: set_update_subset_insert [THEN subsetD])
next
  case False
  with assms(1) show ?thesis by (simp add: list_update_beyond not_less)
qed

lemma list_all_update_same:
  assumes "list_all P xs" and "P u = P (xs ! k)"
  shows "list_all P (xs[k := u])"
  using assms by (intro list_all_update) (simp_all add: list_all_length)

lemma law_geometry [simp]:
  "law (g\<lparr>pa := a\<rparr>) = law g" "law (g\<lparr>pb := b\<rparr>) = law g" "law (g\<lparr>pc := c\<rparr>) = law g"
  "law (g\<lparr>pd := d\<rparr>) = law g" "law (g\<lparr>pcc := e\<rparr>) = law g" "law (g\<lparr>fuel := f\<rparr>) = law g"
  by (simp_all add: law_def)

lemma list_all_nth: "list_all P xs \<Longrightarrow> k < length xs \<Longrightarrow> P (xs ! k)"
  by (simp add: list_all_length)













subsection \<open>Validated data without heat always has graphs\<close>

lemma add_to_offs_ok:
  assumes "offs_ok cfg off" and "b \<in> set (used_boxes cfg)"
  obtains off' where "add_to off b x = Some off'" and "offs_ok cfg off'"
proof -
  from assms obtain v where v: "off b = Some v" by (auto simp: offs_ok_def)
  then have a: "add_to off b x = Some (off(b \<mapsto> v + x))" by (simp add: add_to_def)
  moreover have "offs_ok cfg (off(b \<mapsto> v + x))" using assms(1) by (auto simp: offs_ok_def)
  ultimately show ?thesis by (rule that)
qed

lemma source_point_defined:
  assumes "j \<noteq> 1"
  obtains sa where "source_point cfg j st h = Some sa" and "offs (fst sa) = offs st"
    and "strokes (fst sa) = strokes st"
  using assms by (cases "j = 0") (auto simp: source_point_def)

lemma target_point_defined:
  assumes "\<not> hasHeatData cfg" and "totals_ok cfg tots" and "tops_ok sm" and "offs_ok cfg off1"
    and "boxName \<in> set (used_boxes cfg)"
  shows "\<exists>t. target_point cfg sm tots j boxName off1 a = Some t"
proof -
  from assms(1,5) have b: "boxName \<in> set [''elec'', ''res'', ''ag'', ''indus'', ''trans'']"
    by (simp add: used_boxes_eq)
  from assms(4,5) obtain ob where ob: "off1 boxName = Some ob" by (auto simp: offs_ok_def)
  show ?thesis
  proof (cases "boxName = ''elec''")
    case True
    from assms(2) obtain te where "totals_get tots ''elec'' = Some te"
      by (auto simp: totals_ok_def used_boxes_eq)
    with True ob show ?thesis by (simp add: target_point_def)
  next
    case False
    with b have nh: "boxName \<noteq> ''heat''" and r: "boxName \<in> set [''res'', ''ag'', ''indus'', ''trans'']"
      by auto
    from assms(3) r obtain bt where "boxTops sm boxName = Some bt" by (auto simp: tops_ok_def)
    with False nh ob show ?thesis by (simp add: target_point_def)
  qed
qed

lemma clone_step_defined:
  assumes "waste_ok cfg wasteObj" and "loop_ok cfg st" and "lastBox \<in> set (used_boxes cfg)"
    and "box g = lastBox"
  shows "\<exists>st'. clone_step cfg wasteObj fuelName lastBox g st = Some st' \<and> loop_ok cfg st'"
proof (cases "fuelName = ''elec''
         \<and> (lastBox = ''res'' \<or> lastBox = ''ag'' \<or> lastBox = ''indus'' \<or> lastBox = ''trans''
            \<or> (lastBox = ''heat'' \<and> hasHeatData cfg))")
  case True
  from assms(1,3) obtain wo w where wo: "wasteObj = Some wo" and w: "wo lastBox = Some w"
    by (auto simp: waste_ok_def)
  from assms(2) have "offs_ok cfg (offs st)" by (simp add: loop_ok_def)
  from add_to_offs_ok [OF this assms(3), of "w * SCALE / 2 * 2"] obtain off
    where off: "add_to (offs st) lastBox (w * SCALE / 2 * 2) = Some off" and ok: "offs_ok cfg off" .
  have "clone_step cfg wasteObj fuelName lastBox g st
        = Some (st\<lparr>elecY := elecY st + w * SCALE / 2 * 2, offs := off,
                 strokes := strokes st @ [g\<lparr>stroke := w * SCALE / 2 * 2, gvalue := w\<rparr>]\<rparr>)"
    unfolding clone_step_def if_P [OF True] using off by (simp add: wo w)
  moreover have "loop_ok cfg (st\<lparr>elecY := elecY st + w * SCALE / 2 * 2, offs := off,
                 strokes := strokes st @ [g\<lparr>stroke := w * SCALE / 2 * 2, gvalue := w\<rparr>]\<rparr>)"
    using assms(2,3,4) ok by (simp add: loop_ok_def boxes_ok_def)
  ultimately show ?thesis by blast
next
  case False
  have "clone_step cfg wasteObj fuelName lastBox g st = Some (st\<lparr>strokes := strokes st @ [g]\<rparr>)"
    unfolding clone_step_def if_not_P [OF False] by simp
  moreover have "loop_ok cfg (st\<lparr>strokes := strokes st @ [g]\<rparr>)"
    using assms(2,3,4) by (simp add: loop_ok_def boxes_ok_def)
  ultimately show ?thesis by blast
qed

lemma box_step_defined:
  assumes nh: "\<not> hasHeatData cfg" and tots: "totals_ok cfg tots" and tops: "tops_ok sm"
    and waste: "waste_ok cfg wasteObj" and ok: "loop_ok cfg st" and j: "j \<noteq> 1"
    and fo: "\<forall>b\<in>set (used_boxes cfg). \<exists>v. fuelObj b = Some v"
    and b: "boxName \<in> set BOX_NAMES"
  shows "\<exists>st'. box_step cfg sm tots wasteObj j fuelName fuelObj st boxName = Some st' \<and> loop_ok cfg st'"
proof (cases "fuelName = boxName \<or> (\<not> hasHeatData cfg \<and> boxName = ''heat'')")
  case True
  with ok show ?thesis by (auto simp: box_step_def)
next
  case False
  then have c1: "fuelName \<noteq> boxName" and c2: "\<not> (\<not> hasHeatData cfg \<and> boxName = ''heat'')" by auto
  from c2 b have bu: "boxName \<in> set (used_boxes cfg)" by (auto simp: used_boxes_mem used_def)
  from fo bu obtain v where v: "fuelObj boxName = Some v" by auto
  from source_point_defined [OF j, of cfg st "v * SCALE / 2"] obtain sa
    where sa: "source_point cfg j st (v * SCALE / 2) = Some sa" and so: "offs (fst sa) = offs st"
      and ss: "strokes (fst sa) = strokes st" .
  from ok so have "offs_ok cfg (offs (fst sa))" by (simp add: loop_ok_def)
  from add_to_offs_ok [OF this bu, of "v * SCALE / 2"] obtain off1
    where off1: "add_to (offs (fst sa)) boxName (v * SCALE / 2) = Some off1" and ok1: "offs_ok cfg off1" .
  from target_point_defined [OF nh tots tops ok1 bu, of j "snd sa"] obtain t
    where t: "target_point cfg sm tots j boxName off1 (snd sa) = Some t" by blast
  from add_to_offs_ok [OF ok1 bu, of "v * SCALE / 2"] obtain off2
    where off2: "add_to off1 boxName (v * SCALE / 2) = Some off2" and ok2: "offs_ok cfg off2" .
  let ?g = "new_stroke fuelName boxName v (snd sa) t"
  let ?st2 = "(fst sa)\<lparr>offs := off2,
                         leftY := (if j > 1 then leftY (fst sa) + v * SCALE / 2 else leftY (fst sa)),
                         strokes := strokes (fst sa) @ [?g]\<rparr>"
  have bg: "box ?g = boxName" by (simp add: new_stroke_def)
  have l2: "loop_ok cfg ?st2"
    using ok ok2 ss bu bg by (simp add: loop_ok_def boxes_ok_def)
  have eq: "box_step cfg sm tots wasteObj j fuelName fuelObj st boxName
        = (if j = 0 then clone_step cfg wasteObj fuelName boxName ?g ?st2 else Some ?st2)"
    unfolding box_step_def if_not_P [OF c1] if_not_P [OF c2] by (simp add: v sa off1 t off2)
  show ?thesis
  proof (cases "j = 0")
    case True
    with eq clone_step_defined [OF waste l2 bu bg, of fuelName] show ?thesis by simp
  next
    case False
    with eq l2 show ?thesis by simp
  qed
qed

lemma ofold_defined:
  assumes "I s" and "\<And>s x. I s \<Longrightarrow> x \<in> set xs \<Longrightarrow> \<exists>s'. f s x = Some s' \<and> I s'"
  shows "\<exists>s'. ofold f xs s = Some s' \<and> I s'"
  using assms
proof (induction xs arbitrary: s)
  case Nil
  then show ?case by simp
next
  case (Cons x xs)
  from Cons.prems(2) [OF Cons.prems(1), of x] obtain s1 where s1: "f s x = Some s1" and i1: "I s1"
    by auto
  from Cons.IH [OF i1] Cons.prems(2) obtain s' where "ofold f xs s1 = Some s'" and "I s'"
    by (metis list.set_intros(2))
  with s1 show ?case by simp
qed

lemma FUELS_zip:
  "zip [0..<length FUEL_NAMES] FUEL_NAMES
   = [(0, ''elec''), (1, ''heat''), (2, ''solar''), (3, ''nuclear''), (4, ''hydro''), (5, ''wind''),
      (6, ''geo''), (7, ''gas''), (8, ''coal''), (9, ''bio''), (10, ''petro'')]"
  by (simp add: FUEL_NAMES_def upt_rec)

lemma total_not_box: "''total'' \<notin> set (used_boxes cfg)"
  by (simp add: used_boxes_eq)

lemma rd_total_update:
  "b \<noteq> ''total'' \<Longrightarrow> sectors p f = Some fo
   \<Longrightarrow> rd (p\<lparr>sectors := (sectors p)(f \<mapsto> fo(''total'' \<mapsto> 0))\<rparr>) f' b = rd p f' b"
  by (simp add: rd_def)

lemma complete_point_total:
  assumes "complete_point cfg p" and "sectors p f = Some fo"
  shows "complete_point cfg (p\<lparr>sectors := (sectors p)(f \<mapsto> fo(''total'' \<mapsto> 0))\<rparr>)"
proof -
  have "rd (p\<lparr>sectors := (sectors p)(f \<mapsto> fo(''total'' \<mapsto> 0))\<rparr>) f' b = rd p f' b"
    if "b \<in> set (used_boxes cfg)" for f' b
    using that total_not_box [of cfg] by (intro rd_total_update [OF _ assms(2)]) auto
  with assms(1) show ?thesis by (simp add: complete_point_def)
qed

lemma fuel_graph_step_defined:
  assumes nh: "\<not> hasHeatData cfg" and tots: "totals_ok cfg tots" and tops: "tops_ok sm"
    and waste: "waste_ok cfg wasteObj" and ok: "point_loop_ok cfg pst"
    and jf: "jf \<in> set (zip [0..<length FUEL_NAMES] FUEL_NAMES)"
  shows "\<exists>pst'. fuel_graph_step cfg sm tots wasteObj pst jf = Some pst' \<and> point_loop_ok cfg pst'"
proof (cases "snd jf = ''heat''")
  case True
  with nh ok show ?thesis by (simp add: fuel_graph_step_def Let_def)
next
  case False
  with nh have c: "\<not> (\<not> hasHeatData cfg \<and> snd jf = ''heat'')" by simp
  from jf False have j: "fst jf \<noteq> 1"
    and f: "snd jf = ''elec'' \<or> snd jf \<in> set (map snd fuel_indices)"
    unfolding FUELS_zip fuel_indices_eq by auto
  from ok have cp: "complete_point cfg (fst pst)" and lo: "loop_ok cfg (snd pst)"
    by (simp_all add: point_loop_ok_def)
  have rdd: "\<exists>v. rd (fst pst) (snd jf) b = Some v" if "b \<in> set (used_boxes cfg)" for b
    using f complete_pointD(1,2) [OF cp that] by auto
  have "''elec'' \<in> set (used_boxes cfg)" by (simp add: used_boxes_eq)
  from rdd [OF this] obtain fo where fo: "sectors (fst pst) (snd jf) = Some fo"
    by (auto simp: rd_def split: option.splits)
  have fod: "\<forall>b\<in>set (used_boxes cfg). \<exists>v. (fo(''total'' \<mapsto> 0)) b = Some v"
    using rdd fo total_not_box [of cfg] by (auto simp: rd_def)
  have "\<exists>st1. ofold (box_step cfg sm tots wasteObj (fst jf) (snd jf) (fo(''total'' \<mapsto> 0)))
            (sort_key (order_of (FLOW_PATHS_ORDER (snd jf))) BOX_NAMES) (snd pst) = Some st1
        \<and> loop_ok cfg st1"
    by (rule ofold_defined [where I = "loop_ok cfg"], rule lo)
       (rule box_step_defined [OF nh tots tops waste _ j fod], simp_all)
  then obtain st1 where st1: "ofold (box_step cfg sm tots wasteObj (fst jf) (snd jf) (fo(''total'' \<mapsto> 0)))
            (sort_key (order_of (FLOW_PATHS_ORDER (snd jf))) BOX_NAMES) (snd pst) = Some st1"
    and l1: "loop_ok cfg st1" by blast
  let ?r = "((fst pst)\<lparr>sectors := (sectors (fst pst))(snd jf \<mapsto> fo(''total'' \<mapsto> 0))\<rparr>,
             if fst jf > 1 then st1\<lparr>leftY := leftY st1 + LEFT_GAP\<rparr> else st1)"
  have "fuel_graph_step cfg sm tots wasteObj pst jf = Some ?r"
    unfolding fuel_graph_step_def Let_def if_not_P [OF c] by (simp add: fo st1)
  moreover have "point_loop_ok cfg ?r"
    using complete_point_total [OF cp fo] l1 by (simp add: point_loop_ok_def loop_ok_def)
  ultimately show ?thesis by blast
qed

lemma year_step_fuel_height:
  assumes "complete_point cfg p" and "year_step cfg p = Some (t, fl, lb, ys)"
  shows "\<exists>v. nums t ''fuel_height'' = Some v"
proof -
  from assms(2) obtain st w where st: "ofold (fuel_step cfg p) fuel_indices (initial_loop cfg p) = Some st"
    and w: "year_waste cfg p = Some w"
    and t: "nums t = (total st)(''waste'' \<mapsto> w)"
    and ps: "primary_sum (nums t) = Some ys"
    by (rule year_stepE)
  from fuel_loop_defined [OF assms(1) keys_ok_initial [of cfg p] subset_refl] st have "keys_ok cfg st" by auto
  then show ?thesis by (simp add: t keys_ok_def)
qed

lemma year_step_year:
  assumes "year_step cfg p = Some (t, fl, lb, ys)"
  shows "nums t ''year'' = Some (real_of_int (year p))"
proof -
  have k: "''year'' \<noteq> ''fuel_height''" "''year'' \<noteq> ''waste''" by simp_all
  have nb: "''year'' \<notin> set (used_boxes cfg)" by (simp add: used_boxes_eq)
  have "(\<Sum>jf\<leftarrow>fuel_indices. fuel_contrib cfg p ''year'' jf) = 0"
    by (simp add: fuel_indices_eq fuel_contrib_def contrib_sum [OF distinct_used_boxes] nb)
  then show ?thesis
    unfolding year_step_total [OF assms k] by (simp add: initial_loop_def)
qed

lemma summary_totals_ok:
  assumes sm: "buildSummary cfg ds = Some sm" and cp: "\<forall>p\<in>set (data ds). complete_point cfg p"
    and i: "i < length (data ds)"
  shows "totals_ok cfg (Some (totals sm ! i))"
    and "nums (totals sm ! i) ''year'' = Some (real_of_int (year (data ds ! i)))"
proof -
  from buildSummary_years(2) [OF sm i] obtain fl lb ys
    where y: "year_step cfg (data ds ! i) = Some (totals sm ! i, fl, lb, ys)" by blast
  from cp i have c: "complete_point cfg (data ds ! i)" by simp
  show "totals_ok cfg (Some (totals sm ! i))"
    using year_step_fuel_height [OF c y] box_total_closed [OF y]
    by (auto simp: totals_ok_def totals_get_def)
  show "nums (totals sm ! i) ''year'' = Some (real_of_int (year (data ds ! i)))"
    by (rule year_step_year [OF y])
qed

lemma first_totals_ok:
  assumes sm: "buildSummary cfg ds = Some sm" and cp: "\<forall>p\<in>set (data ds). complete_point cfg p"
    and i: "i < length (data ds)"
  shows "totals_ok cfg (first_totals_of_year (year (data ds ! i)) (totals sm))"
proof -
  let ?P = "\<lambda>d. nums d ''year'' = Some (real_of_int (year (data ds ! i)))"
  have len: "length (totals sm) = length (data ds)" by (rule buildSummary_years(1) [OF sm])
  have "totals sm ! i \<in> set (filter ?P (totals sm))"
    using summary_totals_ok(2) [OF sm cp i] i len by simp
  then obtain d rest where f: "filter ?P (totals sm) = d # rest"
    by (cases "filter ?P (totals sm)") auto
  then have "d \<in> set (filter ?P (totals sm))" by simp
  then have "d \<in> set (totals sm)" by simp
  then obtain k where "k < length (data ds)" and "d = totals sm ! k"
    using len by (auto simp: in_set_conv_nth)
  with summary_totals_ok(1) [OF sm cp] f show ?thesis
    by (simp add: first_totals_of_year_def)
qed

lemma summary_tops_ok:
  assumes sm: "buildSummary cfg ds = Some sm"
  shows "tops_ok sm"
  using sm by (rule boxTops_closed) (simp add: tops_ok_def)

lemma complete_waste_ok: "complete_point cfg p \<Longrightarrow> waste_ok cfg (sectors p ''waste'')"
proof -
  assume cp: "complete_point cfg p"
  have e: "''elec'' \<in> set (used_boxes cfg)" by (simp add: used_boxes_eq)
  from complete_pointD(3) [OF cp e] obtain wo where wo: "sectors p ''waste'' = Some wo"
    by (auto simp: rd_def split: option.splits)
  with complete_pointD(3) [OF cp] show ?thesis by (auto simp: waste_ok_def rd_def)
qed

lemma year_graph_step_defined:
  assumes nh: "\<not> hasHeatData cfg" and sm: "buildSummary cfg ds = Some sm"
    and cp: "\<forall>p\<in>set (data ds). complete_point cfg p" and i: "i < length (data ds)"
  shows "\<exists>point' gd. year_graph_step cfg sm i (data ds ! i) = Some (point', gd) \<and> gd_ok cfg gd"
proof -
  let ?p = "data ds ! i"
  have len: "length (totals sm) = length (data ds)" by (rule buildSummary_years(1) [OF sm])
  have ti: "nth_opt (totals sm) (int i) = Some (totals sm ! i)" using i len by (simp add: nth_opt_def)
  from summary_totals_ok(1) [OF sm cp i] obtain te where te: "nums (totals sm ! i) ''elec'' = Some te"
    by (auto simp: totals_ok_def totals_get_def used_boxes_eq)
  let ?tots = "first_totals_of_year (year ?p) (totals sm)"
  let ?s0 = "(?p, \<lparr>strokes = [], leftY = LEFT_Y cfg, elecY = ELECTRICITY_BOX_Y cfg - te * SCALE,
                     heatY = None,
                     offs = map_of (zero_keys [''elec'', ''res'', ''ag'', ''indus'', ''trans'']
                                    @ (if hasHeatData cfg then [(''heat'', 0)] else []))\<rparr>)"
  from cp i have c: "complete_point cfg ?p" by simp
  have ok0: "point_loop_ok cfg ?s0"
    using c nh by (simp add: point_loop_ok_def loop_ok_def offs_ok_def boxes_ok_def zero_keys_def
        used_boxes_eq)
  have "\<exists>pst. ofold (fuel_graph_step cfg sm ?tots (sectors ?p ''waste''))
           (zip [0..<length FUEL_NAMES] FUEL_NAMES) ?s0 = Some pst \<and> point_loop_ok cfg pst"
    by (rule ofold_defined [where I = "point_loop_ok cfg"], rule ok0)
       (rule fuel_graph_step_defined [OF nh first_totals_ok [OF sm cp i] summary_tops_ok [OF sm]
          complete_waste_ok [OF c]])
  then obtain pst where lp: "ofold (fuel_graph_step cfg sm ?tots (sectors ?p ''waste''))
           (zip [0..<length FUEL_NAMES] FUEL_NAMES) ?s0 = Some pst"
    and okp: "point_loop_ok cfg pst" by blast
  let ?gd = "\<lparr>graph = strokes (snd pst),
              offsets_x = map_of (zero_keys [''solar'', ''nuclear'', ''hydro'', ''wind'', ''geo'',
                                             ''gas'', ''coal'', ''bio'', ''petro'']),
              offsets_y = offs (snd pst),
              graph_year = year (fst pst),
              graph_totals = ?tots,
              graph_flows = first_of_year (year ?p) (flows sm)\<rparr>"
  have "year_graph_step cfg sm i ?p = Some (fst pst, ?gd)"
    unfolding year_graph_step_def using nh lp by (simp add: ti te case_prod_beta)
  moreover have "gd_ok cfg ?gd"
    using okp first_totals_ok [OF sm cp i] by (simp add: gd_ok_def point_loop_ok_def loop_ok_def)
  ultimately show ?thesis by blast
qed

lemma calculateGraphY_defined:
  assumes nh: "\<not> hasHeatData cfg" and sm: "buildSummary cfg ds = Some sm"
    and cp: "\<forall>p\<in>set (data ds). complete_point cfg p"
  shows "\<exists>ds' graphs. calculateGraphY cfg ds sm = Some (ds', graphs) \<and> (\<forall>gd\<in>set graphs. gd_ok cfg gd)"
proof -
  have "\<exists>acc. ofold (graphY_push cfg sm) (zip [0..<length (data ds)] (data ds)) ([], []) = Some acc
          \<and> (\<forall>gd\<in>set (snd acc). gd_ok cfg gd)"
  proof (rule ofold_defined [where I = "\<lambda>acc. \<forall>gd\<in>set (snd acc). gd_ok cfg gd"])
    show "\<forall>gd\<in>set (snd ([], [])). gd_ok cfg gd" by simp
  next
    fix acc :: "EnergyDataPoint list \<times> GraphData list" and ip
    assume a: "\<forall>gd\<in>set (snd acc). gd_ok cfg gd"
      and m: "ip \<in> set (zip [0..<length (data ds)] (data ds))"
    from m have i: "fst ip < length (data ds)" and p: "snd ip = data ds ! fst ip"
      by (auto simp: in_set_zip)
    from year_graph_step_defined [OF nh sm cp i] p obtain point' gd
      where "year_graph_step cfg sm (fst ip) (snd ip) = Some (point', gd)" and "gd_ok cfg gd"
      by auto
    with a show "\<exists>acc'. graphY_push cfg sm acc ip = Some acc' \<and> (\<forall>gd\<in>set (snd acc'). gd_ok cfg gd)"
      by (simp add: graphY_push_def)
  qed
  then show ?thesis by (auto simp: calculateGraphY_def)
qed

lemma offs_ok_update: "offs_ok cfg off \<Longrightarrow> offs_ok cfg (off(b \<mapsto> v))"
  by (simp add: offs_ok_def)

lemma boxes_ok_update:
  "boxes_ok cfg gr \<Longrightarrow> box u = box (gr ! k) \<Longrightarrow> boxes_ok cfg (gr[k := u])"
  unfolding boxes_ok_def by (rule list_all_update_same) simp_all

lemma ups_step_defined:
  assumes tots: "totals_ok cfg tots" and ok: "xstate_ok cfg n s" and k: "snd jk < n"
  shows "\<exists>s'. ups_step cfg tots s jk = Some s' \<and> xstate_ok cfg n s'"
proof -
  let ?g = "fst s ! snd jk"
  from ok k have b: "box ?g \<in> set (used_boxes cfg)"
    by (auto simp: xstate_ok_def boxes_ok_def dest: list_all_nth)
  from tots b obtain t where t: "totals_get tots (box ?g) = Some t" by (auto simp: totals_ok_def)
  from tots obtain fh where fh: "totals_get tots ''fuel_height'' = Some fh"
    by (auto simp: totals_ok_def)
  from ok b obtain ob where ob: "fst (snd s) (box ?g) = Some ob"
    by (auto simp: xstate_ok_def offs_ok_def)
  from ok have l: "length (fst s) = n" and bo: "boxes_ok cfg (fst s)" and oo: "offs_ok cfg (fst (snd s))"
    by (simp_all add: xstate_ok_def)
  show ?thesis
    by (cases "Some (box ?g) = snd (snd s)")
       (simp_all add: ups_step_def Let_def t fh ob xstate_ok_def l oo offs_ok_update
          boxes_ok_update [OF bo])
qed

lemma downs_step_defined:
  assumes ok: "xstate_ok cfg n s" and k: "snd jk < n"
  shows "\<exists>s'. downs_step cfg s jk = Some s' \<and> xstate_ok cfg n s'"
proof -
  let ?g = "fst s ! snd jk"
  from ok k have b: "box ?g \<in> set (used_boxes cfg)"
    by (auto simp: xstate_ok_def boxes_ok_def dest: list_all_nth)
  from ok b obtain ob where ob: "fst (snd s) (box ?g) = Some ob"
    by (auto simp: xstate_ok_def offs_ok_def)
  from ok have l: "length (fst s) = n" and bo: "boxes_ok cfg (fst s)" and oo: "offs_ok cfg (fst (snd s))"
    by (simp_all add: xstate_ok_def)
  show ?thesis
    by (cases "Some (box ?g) = snd (snd s)")
       (simp_all add: downs_step_def Let_def ob xstate_ok_def l oo offs_ok_update
          boxes_ok_update [OF bo])
qed

lemma indexed_positions:
  assumes "jk \<in> set (indexed (sort_key f (positions P gr)))"
  shows "snd jk < length gr"
proof -
  from assms have "snd jk \<in> set (sort_key f (positions P gr))"
    unfolding indexed_def by (metis prod.collapse set_zip_rightD)
  then show ?thesis by (simp add: positions_def)
qed

lemma indexed_positions_plain:
  assumes "jk \<in> set (indexed (positions P gr))"
  shows "snd jk < length gr"
proof -
  from assms have "snd jk \<in> set (positions P gr)"
    unfolding indexed_def by (metis prod.collapse set_zip_rightD)
  then show ?thesis by (simp add: positions_def)
qed

lemma calculateGraphXUps_defined:
  assumes "gd_ok cfg gd"
  shows "\<exists>gd'. calculateGraphXUps cfg gd = Some gd' \<and> gd_ok cfg gd'"
proof -
  let ?sel = "sort_key (\<lambda>k. sortGraphUp (graph gd ! k))
                (positions (\<lambda>g. py (pa g) > py (pd g) \<and> \<not> hub_box g) (graph gd))"
  from assms have tots: "totals_ok cfg (graph_totals gd)" by (simp add: gd_ok_def)
  have "\<exists>s'. ofold (ups_step cfg (graph_totals gd)) (indexed ?sel) (graph gd, offsets_y gd, None) = Some s'
         \<and> xstate_ok cfg (length (graph gd)) s'"
  proof (rule ofold_defined [where I = "xstate_ok cfg (length (graph gd))"])
    show "xstate_ok cfg (length (graph gd)) (graph gd, offsets_y gd, None)"
      using assms by (simp add: xstate_ok_def gd_ok_def)
  next
    fix s jk
    assume "xstate_ok cfg (length (graph gd)) s" and "jk \<in> set (indexed ?sel)"
    then show "\<exists>s'. ups_step cfg (graph_totals gd) s jk = Some s' \<and> xstate_ok cfg (length (graph gd)) s'"
      by (intro ups_step_defined [OF tots]) (auto dest: indexed_positions)
  qed
  then obtain s' where lp: "ofold (ups_step cfg (graph_totals gd)) (indexed ?sel)
      (graph gd, offsets_y gd, None) = Some s'" and ok: "xstate_ok cfg (length (graph gd)) s'"
    by blast
  have "calculateGraphXUps cfg gd = Some (gd\<lparr>graph := fst s', offsets_y := fst (snd s')\<rparr>)"
    by (simp add: calculateGraphXUps_def Let_def lp split: prod.splits)
  moreover have "gd_ok cfg (gd\<lparr>graph := fst s', offsets_y := fst (snd s')\<rparr>)"
    using ok tots by (simp add: gd_ok_def xstate_ok_def)
  ultimately show ?thesis by blast
qed

lemma calculateGraphXDowns_defined:
  assumes "gd_ok cfg gd"
  shows "\<exists>gd'. calculateGraphXDowns cfg gd = Some gd' \<and> gd_ok cfg gd'"
proof -
  let ?sel = "sort_key (\<lambda>k. sortGraphDown (graph gd ! k))
                (positions (\<lambda>g. py (pa g) < py (pd g) \<and> \<not> hub_box g) (graph gd))"
  from assms have tots: "totals_ok cfg (graph_totals gd)" by (simp add: gd_ok_def)
  have "\<exists>s'. ofold (downs_step cfg) (indexed ?sel) (graph gd, offsets_y gd, None) = Some s'
         \<and> xstate_ok cfg (length (graph gd)) s'"
  proof (rule ofold_defined [where I = "xstate_ok cfg (length (graph gd))"])
    show "xstate_ok cfg (length (graph gd)) (graph gd, offsets_y gd, None)"
      using assms by (simp add: xstate_ok_def gd_ok_def)
  next
    fix s jk
    assume "xstate_ok cfg (length (graph gd)) s" and "jk \<in> set (indexed ?sel)"
    then show "\<exists>s'. downs_step cfg s jk = Some s' \<and> xstate_ok cfg (length (graph gd)) s'"
      by (intro downs_step_defined) (auto dest: indexed_positions)
  qed
  then obtain s' where lp: "ofold (downs_step cfg) (indexed ?sel)
      (graph gd, offsets_y gd, None) = Some s'" and ok: "xstate_ok cfg (length (graph gd)) s'"
    by blast
  have "calculateGraphXDowns cfg gd = Some (gd\<lparr>graph := fst s', offsets_y := fst (snd s')\<rparr>)"
    by (simp add: calculateGraphXDowns_def Let_def lp split: prod.splits)
  moreover have "gd_ok cfg (gd\<lparr>graph := fst s', offsets_y := fst (snd s')\<rparr>)"
    using ok tots by (simp add: gd_ok_def xstate_ok_def)
  ultimately show ?thesis by blast
qed

lemma calculateGraphX_defined:
  assumes "gd_ok cfg gd"
  shows "\<exists>gd'. calculateGraphX cfg gd = Some gd'"
proof -
  from calculateGraphXUps_defined [OF assms] obtain gd1
    where u: "calculateGraphXUps cfg gd = Some gd1" and ok1: "gd_ok cfg gd1" by blast
  from calculateGraphXDowns_defined [OF ok1] obtain gd2
    where "calculateGraphXDowns cfg gd1 = Some gd2" by blast
  with u show ?thesis by (simp add: calculateGraphX_def)
qed

lemma omap_defined:
  assumes "\<forall>x\<in>set xs. \<exists>y. f x = Some y"
  shows "\<exists>ys. omap f xs = Some ys"
  using assms by (induction xs) auto

lemma buildGraphs_total:
  assumes nh: "\<not> hasHeatData cfg" and sm: "buildSummary cfg ds = Some sm"
    and cp: "\<forall>p\<in>set (data ds). complete_point cfg p"
  shows "\<exists>r. buildGraphs cfg ds sm = Some r"
proof -
  from calculateGraphY_defined [OF nh sm cp] obtain ds' graphs1
    where y: "calculateGraphY cfg ds sm = Some (ds', graphs1)"
      and ok: "\<forall>gd\<in>set graphs1. gd_ok cfg gd" by blast
  from ok have "\<forall>gd\<in>set graphs1. \<exists>y. calculateGraphX cfg gd = Some y"
    by (auto dest: calculateGraphX_defined)
  from omap_defined [OF this] obtain graphs2
    where "omap (calculateGraphX cfg) graphs1 = Some graphs2" by blast
  with y show ?thesis by (simp add: buildGraphs_def)
qed

lemma buildGraphs_defined:
  assumes "new_DataService cfg energyData = Inr (cfg', ds)" and "\<not> hasHeatData cfg'"
    and "buildSummary cfg' ds = Some sm"
  shows "\<exists>r. buildGraphs cfg' ds sm = Some r"
proof -
  from assms(1) have v: "validateData cfg energyData = Inr cfg'" and d: "data ds = sort_key year energyData"
    by (auto simp: new_DataService_def Let_def split: sum.splits)
  have "\<forall>p\<in>set (data ds). complete_point cfg' p"
    using validated_complete [OF v assms(2)] d by simp
  with assms(2,3) show ?thesis by (intro buildGraphs_total)
qed

lemma ofold_establish:
  assumes "ofold f xs s = Some s'" and "x \<in> set xs"
    and "\<And>s s'. f s x = Some s' \<Longrightarrow> P s'"
    and "\<And>s y s'. f s y = Some s' \<Longrightarrow> P s \<Longrightarrow> P s'"
  shows "P s'"
  using assms(1,2)
proof (induction xs arbitrary: s)
  case Nil
  then show ?case by simp
next
  case (Cons y ys)
  from Cons.prems(1) obtain s1 where s1: "f s y = Some s1" and r: "ofold f ys s1 = Some s'"
    by (auto split: option.splits)
  show ?case
  proof (cases "x = y")
    case True
    with s1 have "P s1" by (auto intro: assms(3))
    show ?thesis
    proof (rule ofold_invariant [OF r, where P = P])
      show "P s1" by fact
    next
      fix s x s'
      assume "f s x = Some s'" and "P s"
      then show "P s'" by (rule assms(4))
    qed
  next
    case False
    with Cons.prems(2) have "x \<in> set ys" by simp
    from Cons.IH [OF r this] show ?thesis .
  qed
qed

subsection \<open>What graph building does to the records\<close>

lemma fuel_graph_step_point:
  assumes "fuel_graph_step cfg sm tots wasteObj pst jf = Some pst'"
  shows "year (fst pst') = year (fst pst)"
    and "b \<noteq> ''total'' \<Longrightarrow> rd (fst pst') f b = rd (fst pst) f b"
    and "rd (fst pst) f ''total'' = Some 0 \<Longrightarrow> rd (fst pst') f ''total'' = Some 0"
    and "\<not> (\<not> hasHeatData cfg \<and> snd jf = ''heat'') \<Longrightarrow> rd (fst pst') (snd jf) ''total'' = Some 0"
proof -
  have "year (fst pst') = year (fst pst)
      \<and> (b \<noteq> ''total'' \<longrightarrow> rd (fst pst') f b = rd (fst pst) f b)
      \<and> (rd (fst pst) f ''total'' = Some 0 \<longrightarrow> rd (fst pst') f ''total'' = Some 0)
      \<and> (\<not> (\<not> hasHeatData cfg \<and> snd jf = ''heat'') \<longrightarrow> rd (fst pst') (snd jf) ''total'' = Some 0)"
  proof (cases "\<not> hasHeatData cfg \<and> snd jf = ''heat''")
    case True
    with assms show ?thesis by (simp add: fuel_graph_step_def Let_def)
  next
    case False
    from assms obtain fo where fo: "sectors (fst pst) (snd jf) = Some fo"
      and p: "fst pst' = (fst pst)\<lparr>sectors := (sectors (fst pst))(snd jf \<mapsto> fo(''total'' \<mapsto> 0))\<rparr>"
      unfolding fuel_graph_step_def Let_def if_not_P [OF False] bind_eq_Some_conv by force
    show ?thesis unfolding p using fo by (simp add: rd_def)
  qed
  then show "year (fst pst') = year (fst pst)"
    and "b \<noteq> ''total'' \<Longrightarrow> rd (fst pst') f b = rd (fst pst) f b"
    and "rd (fst pst) f ''total'' = Some 0 \<Longrightarrow> rd (fst pst') f ''total'' = Some 0"
    and "\<not> (\<not> hasHeatData cfg \<and> snd jf = ''heat'') \<Longrightarrow> rd (fst pst') (snd jf) ''total'' = Some 0"
    by simp_all
qed

lemma year_graph_stepE:
  assumes "year_graph_step cfg sm i point = Some (point', gd)"
  obtains te hy pst where
    "ofold (fuel_graph_step cfg sm (first_totals_of_year (year point) (totals sm))
                  (sectors point ''waste''))
           (zip [0..<length FUEL_NAMES] FUEL_NAMES)
           (point, \<lparr>strokes = [], leftY = LEFT_Y cfg, elecY = ELECTRICITY_BOX_Y cfg - te * SCALE,
                     heatY = hy,
                     offs = map_of (zero_keys [''elec'', ''res'', ''ag'', ''indus'', ''trans'']
                                    @ (if hasHeatData cfg then [(''heat'', 0)] else []))\<rparr>) = Some pst"
    and "graph gd = strokes (snd pst)" and "point' = fst pst"
  using assms unfolding year_graph_step_def bind_eq_Some_conv by (force split: prod.splits)

lemma year_graph_step_point:
  assumes "year_graph_step cfg sm i point = Some (point', gd)"
  shows "year point' = year point"
    and "b \<noteq> ''total'' \<Longrightarrow> rd point' f b = rd point f b"
    and "f \<in> set FUEL_NAMES \<Longrightarrow> \<not> (\<not> hasHeatData cfg \<and> f = ''heat'') \<Longrightarrow> rd point' f ''total'' = Some 0"
proof -
  from assms obtain te hy pst where
    lp: "ofold (fuel_graph_step cfg sm (first_totals_of_year (year point) (totals sm))
                  (sectors point ''waste''))
           (zip [0..<length FUEL_NAMES] FUEL_NAMES)
           (point, \<lparr>strokes = [], leftY = LEFT_Y cfg, elecY = ELECTRICITY_BOX_Y cfg - te * SCALE,
                     heatY = hy,
                     offs = map_of (zero_keys [''elec'', ''res'', ''ag'', ''indus'', ''trans'']
                                    @ (if hasHeatData cfg then [(''heat'', 0)] else []))\<rparr>) = Some pst"
    and p: "point' = fst pst"
    by (rule year_graph_stepE)
  have "year (fst pst) = year point"
    by (rule ofold_invariant [OF lp, where P = "\<lambda>pst. year (fst pst) = year point"])
       (simp_all add: fuel_graph_step_point(1))
  then show "year point' = year point" by (simp add: p)
  show "rd point' f b = rd point f b" if "b \<noteq> ''total''"
    unfolding p
    by (rule ofold_invariant [OF lp, where P = "\<lambda>pst. rd (fst pst) f b = rd point f b"])
       (simp_all add: fuel_graph_step_point(2) [OF _ that])
  show "rd point' f ''total'' = Some 0"
    if f: "f \<in> set FUEL_NAMES" and h: "\<not> (\<not> hasHeatData cfg \<and> f = ''heat'')"
  proof -
    from f obtain j where "j < length FUEL_NAMES" and "FUEL_NAMES ! j = f"
      by (auto simp: in_set_conv_nth)
    then have j: "(j, f) \<in> set (zip [0..<length FUEL_NAMES] FUEL_NAMES)"
      unfolding in_set_zip by (intro exI [of _ j]) simp
    show ?thesis
      unfolding p
    proof (rule ofold_establish [OF lp j, where P = "\<lambda>pst. rd (fst pst) f ''total'' = Some 0"])
      fix s s'
      assume "fuel_graph_step cfg sm (first_totals_of_year (year point) (totals sm))
                (sectors point ''waste'') s (j, f) = Some s'"
      from fuel_graph_step_point(4) [OF this] h show "rd (fst s') f ''total'' = Some 0" by simp
    next
      fix s y s'
      assume "fuel_graph_step cfg sm (first_totals_of_year (year point) (totals sm))
                (sectors point ''waste'') s y = Some s'"
        and "rd (fst s) f ''total'' = Some 0"
      then show "rd (fst s') f ''total'' = Some 0" by (rule fuel_graph_step_point(3))
    qed
  qed
qed

lemma graphY_push_loop:
  assumes "ofold (graphY_push cfg sm) ips acc = Some acc'"
  shows "\<exists>ps gs. acc' = (fst acc @ ps, snd acc @ gs)
          \<and> list_all2 (\<lambda>ip pg. year_graph_step cfg sm (fst ip) (snd ip) = Some pg) ips (zip ps gs)
          \<and> length ps = length ips \<and> length gs = length ips"
  using assms
proof (induction ips arbitrary: acc)
  case Nil
  then show ?case by simp
next
  case (Cons ip ips)
  from Cons.prems obtain acc1 where a: "graphY_push cfg sm acc ip = Some acc1"
    and r1: "ofold (graphY_push cfg sm) ips acc1 = Some acc'"
    by (auto split: option.splits)
  from a obtain point' gd where
    y: "year_graph_step cfg sm (fst ip) (snd ip) = Some (point', gd)"
    and "acc1 = (fst acc @ [point'], snd acc @ [gd])"
    by (auto simp: graphY_push_def split: option.splits prod.splits)
  with r1 have r: "ofold (graphY_push cfg sm) ips (fst acc @ [point'], snd acc @ [gd]) = Some acc'"
    by simp
  from Cons.IH [OF r] obtain ps gs where
    "acc' = (fst acc @ point' # ps, snd acc @ gd # gs)"
    "list_all2 (\<lambda>ip pg. year_graph_step cfg sm (fst ip) (snd ip) = Some pg) ips (zip ps gs)"
    "length ps = length ips" "length gs = length ips"
    by auto
  with y show ?case
    by (intro exI [of _ "point' # ps"] exI [of _ "gd # gs"]) simp
qed

lemma calculateGraphY_years:
  assumes "calculateGraphY cfg ds sm = Some (ds', graphs)"
  shows "length (data ds') = length (data ds)" and "length graphs = length (data ds)"
    and "i < length (data ds)
         \<Longrightarrow> year_graph_step cfg sm i (data ds ! i) = Some (data ds' ! i, graphs ! i)"
proof -
  from assms obtain dat where
    lp: "ofold (graphY_push cfg sm) (zip [0..<length (data ds)] (data ds)) ([], []) = Some (dat, graphs)"
    and d: "data ds' = dat"
    by (auto simp: calculateGraphY_def split: option.splits prod.splits)
  from graphY_push_loop [OF lp] have
    l: "list_all2 (\<lambda>ip pg. year_graph_step cfg sm (fst ip) (snd ip) = Some pg)
          (zip [0..<length (data ds)] (data ds)) (zip dat graphs)"
    and n: "length dat = length (data ds)" "length graphs = length (data ds)"
    by auto
  from n d show "length (data ds') = length (data ds)" and "length graphs = length (data ds)"
    by simp_all
  show "year_graph_step cfg sm i (data ds ! i) = Some (data ds' ! i, graphs ! i)"
    if "i < length (data ds)"
    using list_all2_nthD [OF l, of i] that n d by simp
qed

lemma buildGraphsE:
  assumes "buildGraphs cfg ds sm = Some (ds', graphs)"
  obtains graphs1 graphs2 where "calculateGraphY cfg ds sm = Some (ds', graphs1)"
    and "omap (calculateGraphX cfg) graphs1 = Some graphs2"
    and "graphs = map processWasteHeatFlows (map (spaceUpsAndDowns cfg) graphs2)"
  using assms by (auto simp: buildGraphs_def bind_eq_Some_conv split: prod.splits)

lemma graph_building_keeps_quantities:
  assumes "buildGraphs cfg ds sm = Some (ds', graphs)" and "i < length (data ds)"
  shows "year (data ds' ! i) = year (data ds ! i)"
    and "b \<noteq> ''total'' \<Longrightarrow> rd (data ds' ! i) f b = rd (data ds ! i) f b"
proof -
  from assms(1) obtain graphs1 where y: "calculateGraphY cfg ds sm = Some (ds', graphs1)"
    by (rule buildGraphsE)
  note s = calculateGraphY_years(3) [OF y assms(2)]
  show "year (data ds' ! i) = year (data ds ! i)" by (rule year_graph_step_point(1) [OF s])
  show "b \<noteq> ''total'' \<Longrightarrow> rd (data ds' ! i) f b = rd (data ds ! i) f b"
    by (rule year_graph_step_point(2) [OF s])
qed

lemma graph_building_writes_total:
  assumes "buildGraphs cfg ds sm = Some (ds', graphs)" and "i < length (data ds)"
    and "f \<in> set FUEL_NAMES" and "\<not> (\<not> hasHeatData cfg \<and> f = ''heat'')"
  shows "rd (data ds' ! i) f ''total'' = Some 0"
proof -
  from assms(1) obtain graphs1 where y: "calculateGraphY cfg ds sm = Some (ds', graphs1)"
    by (rule buildGraphsE)
  from year_graph_step_point(3) [OF calculateGraphY_years(3) [OF y assms(2)] assms(3,4)]
  show ?thesis .
qed

text \<open>
  C7. The records are not left as they were. For the validated one-year dataset whose
  every quantity is 1, \<open>buildGraphs\<close> returns; before it the solar object of the record
  has no property \<open>total\<close>, afterwards the same record, in the frozen array of the data
  service, has \<open>solar.total = 0\<close>: \<open>Object.freeze\<close> froze the array, not the objects in
  it. By \<open>graph_building_writes_total\<close> this happens to every fuel object of every
  record; by \<open>graph_building_keeps_quantities\<close> the year and the quantities under every
  other key, so the energy values of all sectors, are left as they were.
\<close>

theorem graph_building_mutates_records:
  "\<exists>ds' graphs. buildGraphs cfg0 (ds1 1) (sm_one 1) = Some (ds', graphs)
     \<and> rd (data (ds1 1) ! 0) ''solar'' ''total'' = None
     \<and> rd (data ds' ! 0) ''solar'' ''total'' = Some 0
     \<and> data ds' \<noteq> data (ds1 1)"
proof -
  from buildGraphs_defined [OF new_one cfg0_no_heat sm_one_tot(1)] obtain ds' graphs
    where b: "buildGraphs cfg0 (ds1 1) (sm_one 1) = Some (ds', graphs)" by force
  have i: "0 < length (data (ds1 1))" by (simp add: ds1_def)
  have f: "''solar'' \<in> set FUEL_NAMES" by (simp add: FUEL_NAMES_def)
  have before: "rd (data (ds1 1) ! 0) ''solar'' ''total'' = None"
    by (simp add: ds1_def rd_flat requiredBreakdown_def)
  have after: "rd (data ds' ! 0) ''solar'' ''total'' = Some 0"
    by (rule graph_building_writes_total [OF b i f]) simp
  from before after have "data ds' \<noteq> data (ds1 1)" by auto
  with b before after show ?thesis by blast
qed

subsection \<open>Every graph has flows\<close>

















end
